theory Spec2Isabelle
  imports Main
begin

section \<open>Overview\<close>

text \<open>
  The repository has two Python modules.  \<^verbatim>\<open>ants/network_scan.py\<close> parses the text of a
  Wi-Fi scan into cells and picks the cell with the strongest signal.
  \<^verbatim>\<open>sigpyc/sigcontrol.py\<close> is a supervisor object that starts external programs (a
  capture script, a signal-generator controller, an iperf client and server), waits for
  them in busy loops and kills some of them.  Both are embedded here as functions: the
  scan helpers as functions on strings, the supervisor as functions on a state made of the
  supervisor's fields and of the processes it has started.  The definitions come first,
  the properties after them.
\<close>

section \<open>Python values and exceptions\<close>

text \<open>
  The exceptions the two modules can raise.  \<open>OSError\<close> stands for the failure of
  \<^verbatim>\<open>subprocess.Popen\<close> to start the program (a missing executable raises
  \<^verbatim>\<open>FileNotFoundError\<close>, a subclass of \<^verbatim>\<open>OSError\<close>).
\<close>

datatype error = IndexError | TypeError | ValueError | AttributeError | OSError

section \<open>ants/network\_scan.py\<close>

subsection \<open>Text helpers\<close>

definition startswith :: "string \<Rightarrow> string \<Rightarrow> bool" where
  "startswith p s = (take (length p) s = p)"

definition is_digit :: "char \<Rightarrow> bool" where
  "is_digit c = (c \<in> set ''0123456789'')"

definition digit_val :: "char \<Rightarrow> nat" where
  "digit_val c = of_char c - 48"

text \<open>The value of a string of decimal digits, most significant digit first.\<close>

definition digits_val :: "string \<Rightarrow> nat" where
  "digits_val s = foldl (\<lambda>acc c. 10 * acc + digit_val c) 0 s"

text \<open>
  \<^verbatim>\<open>int(x)\<close> for \<open>x\<close> either \<^verbatim>\<open>None\<close> or a \<^verbatim>\<open>str\<close>.  \<^verbatim>\<open>int(None)\<close> raises
  \<^verbatim>\<open>TypeError\<close>.  For a string, surrounding white space is stripped, one sign is
  accepted, and the rest must be decimal digits, where single underscores may separate
  digits; anything else raises \<^verbatim>\<open>ValueError\<close>.  Characters are bytes here, so the
  digits are the ASCII ones, and the interpreter's configurable cap on the number of
  digits is not part of the model.
\<close>

definition is_space :: "char \<Rightarrow> bool" where
  "is_space c = (let n = (of_char c :: nat) in (9 \<le> n \<and> n \<le> 13) \<or> (28 \<le> n \<and> n \<le> 32))"

definition strip :: "string \<Rightarrow> string" where
  "strip s = rev (dropWhile is_space (rev (dropWhile is_space s)))"

fun grouped_digits :: "string \<Rightarrow> bool" where
  "grouped_digits [] = False"
| "grouped_digits [c] = is_digit c"
| "grouped_digits (c # d # r) =
     (is_digit c \<and> (if d = CHR ''_'' then grouped_digits r else grouped_digits (d # r)))"

definition int_of_str :: "string \<Rightarrow> error + int" where
  "int_of_str s =
     (let t = strip s;
          neg = (t \<noteq> [] \<and> hd t = CHR ''-'');
          u = (if t \<noteq> [] \<and> (hd t = CHR ''-'' \<or> hd t = CHR ''+'') then tl t else t)
      in if grouped_digits u
         then Inr ((if neg then - 1 else 1) * int (digits_val (filter (\<lambda>c. c \<noteq> CHR ''_'') u)))
         else Inl ValueError)"

definition py_int :: "string option \<Rightarrow> error + int" where
  "py_int x = (case x of None \<Rightarrow> Inl TypeError | Some s \<Rightarrow> int_of_str s)"

subsection \<open>Cells and the two regular expressions\<close>

record cell =
  essid :: "string option"
  level :: "string option"

text \<open>
  \<^verbatim>\<open>re.search("Signal level=([0-9]{1,3})/100", s)\<close>: the leftmost position at which the
  literal, one to three digits (three tried first) and \<^verbatim>\<open>/100\<close> follow one another;
  the result is the digits.
\<close>

definition digits_then_100 :: "nat \<Rightarrow> string \<Rightarrow> string option" where
  "digits_then_100 k r =
     (if k \<le> length r \<and> (\<forall>c \<in> set (take k r). is_digit c) \<and> startswith ''/100'' (drop k r)
      then Some (take k r) else None)"

definition level_at :: "string \<Rightarrow> string option" where
  "level_at s =
     (if startswith ''Signal level='' s
      then (let r = drop (length ''Signal level='') s in
            case digits_then_100 3 r of Some g \<Rightarrow> Some g
            | None \<Rightarrow> (case digits_then_100 2 r of Some g \<Rightarrow> Some g
            | None \<Rightarrow> digits_then_100 1 r))
      else None)"

fun get_level :: "string \<Rightarrow> string option" where
  "get_level [] = None"
| "get_level (c # cs) =
     (case level_at (c # cs) of Some g \<Rightarrow> Some g | None \<Rightarrow> get_level cs)"

text \<open>
  \<^verbatim>\<open>re.search("ESSID:\"(.*)\"", s)\<close>: the leftmost position at which \<^verbatim>\<open>ESSID:"\<close> is
  followed, on the same line, by another double quote; the dot does not match a newline
  and the star is greedy, so the group runs up to the last double quote of that line.
\<close>

definition before_last_quote :: "string \<Rightarrow> string option" where
  "before_last_quote line =
     (if CHR 0x22 \<in> set line
      then Some (rev (tl (dropWhile (\<lambda>c. c \<noteq> CHR 0x22) (rev line))))
      else None)"

definition essid_at :: "string \<Rightarrow> string option" where
  "essid_at s =
     (if startswith (''ESSID:'' @ [CHR 0x22]) s
      then before_last_quote (takeWhile (\<lambda>c. c \<noteq> CHR 0x0A) (drop 7 s))
      else None)"

fun get_essid :: "string \<Rightarrow> string option" where
  "get_essid [] = None"
| "get_essid (c # cs) =
     (case essid_at (c # cs) of Some g \<Rightarrow> Some g | None \<Rightarrow> get_essid cs)"

subsection \<open>get\_cells\<close>

text \<open>
  \<^verbatim>\<open>s.split(sep)\<close> for a non-empty separator: the pieces between the non-overlapping
  occurrences of \<open>sep\<close>, found from the left.  \<open>acc\<close> holds the current piece, reversed.
\<close>

function split_acc :: "string \<Rightarrow> string \<Rightarrow> string \<Rightarrow> string list" where
  "split_acc sep acc [] = [rev acc]"
| "split_acc sep acc (c # cs) =
     (if sep \<noteq> [] \<and> startswith sep (c # cs)
      then rev acc # split_acc sep [] (drop (length sep) (c # cs))
      else split_acc sep (c # acc) cs)"
  by pat_completeness auto
termination
  by (relation "measure (\<lambda>(sep, acc, s). length s)") (auto simp: neq_Nil_conv)

definition split_str :: "string \<Rightarrow> string \<Rightarrow> string list" where
  "split_str s sep = split_acc sep [] s"

text \<open>The loop of \<^verbatim>\<open>get_cells\<close>: every piece but the one at index 0 becomes a cell.\<close>

fun cells_loop :: "string list \<Rightarrow> nat \<Rightarrow> cell list \<Rightarrow> cell list" where
  "cells_loop [] index cells = cells"
| "cells_loop (a # arr) index cells =
     cells_loop arr (index + 1)
       (if index \<noteq> 0 then cells @ [\<lparr>essid = get_essid a, level = get_level a\<rparr>] else cells)"

definition get_cells :: "string \<Rightarrow> cell list" where
  "get_cells s = cells_loop (split_str s ''Cell'') 0 []"

subsection \<open>max\_cell\_level\<close>

text \<open>
  The loop returns the final \<open>index\<close>; \<^verbatim>\<open>int(a.level)\<close> is evaluated for every element
  in turn and the first failure ends the call.
\<close>

fun max_loop :: "cell list \<Rightarrow> int \<Rightarrow> nat \<Rightarrow> nat \<Rightarrow> error + nat" where
  "max_loop [] mx index i = Inr index"
| "max_loop (a # arr) mx index i =
     (case py_int (level a) of
        Inl e \<Rightarrow> Inl e
      | Inr v \<Rightarrow> if v > mx then max_loop arr v i (i + 1) else max_loop arr mx index (i + 1))"

definition max_cell_level :: "cell list \<Rightarrow> error + cell" where
  "max_cell_level arr =
     (case max_loop arr 0 0 0 of
        Inl e \<Rightarrow> Inl e
      | Inr index \<Rightarrow> if index < length arr then Inr (arr ! index) else Inl IndexError)"

text \<open>
  \<^verbatim>\<open>network_scan\<close> from the point where \<open>data\<close> holds the text of the scan (the
  output of \<^verbatim>\<open>iwlist\<close>, after \<^verbatim>\<open>str\<close>); the result is \<^verbatim>\<open>c.essid\<close>.  The two
  messages it prints before returning are left out.
\<close>

definition network_scan :: "string \<Rightarrow> error + string option" where
  "network_scan data =
     (let cells = get_cells data in
      case max_cell_level cells of Inl e \<Rightarrow> Inl e | Inr c \<Rightarrow> Inr (essid c))"

subsection \<open>Predicates used in the statements\<close>




definition contains_str :: "string \<Rightarrow> string \<Rightarrow> bool" where
  "contains_str sep s = (\<exists>pre post. s = pre @ sep @ post)"

section \<open>sigpyc/sigcontrol.py\<close>

subsection \<open>Child processes and the operating system\<close>

text \<open>
  The supervisor only starts external programs, polls them and kills them.  What those
  programs do is not part of the repository, so it is a parameter: for the \<open>n\<close>-th
  process started, with its argument list, \<open>env\<close> says whether the launch fails
  (\<^verbatim>\<open>Popen\<close> raises) or succeeds, and in that case how long the process lives and the
  status it exits with.  Time is counted in calls to the operating system
  (\<^verbatim>\<open>Popen\<close>, \<^verbatim>\<open>poll\<close>, \<^verbatim>\<open>kill\<close>): a life of \<open>Some n\<close> ends after \<open>n + 1\<close> further
  calls, a life of \<open>None\<close> never ends by itself.  Every pattern of exits between two calls
  of the supervisor is the behaviour of some \<open>env\<close>.
\<close>

datatype pstate = Running "nat option" int | Exited int | Killed

text \<open>A \<^verbatim>\<open>Popen\<close> object: the process it stands for and its \<^verbatim>\<open>returncode\<close> attribute.\<close>

record process =
  argv :: "string list"
  pstate :: pstate
  returncode :: "int option"

datatype launch = Fails | Starts "nat option" int

text \<open>
  What the supervisor does, in order: a successful \<^verbatim>\<open>Popen\<close> with the number of the new
  process and its arguments, a call of \<^verbatim>\<open>poll\<close>, a call of \<^verbatim>\<open>kill\<close>, a \<^verbatim>\<open>print\<close>.
\<close>

datatype event = Spawned nat "string list" | Polled nat | KillCalled nat | Printed string

type_synonym env = "nat \<Rightarrow> string list \<Rightarrow> launch"

record world =
  procs :: "process list"
  trace :: "event list"

definition is_running :: "process \<Rightarrow> bool" where
  "is_running p = (case pstate p of Running life code \<Rightarrow> True | Exited code \<Rightarrow> False | Killed \<Rightarrow> False)"

fun tick_state :: "pstate \<Rightarrow> pstate" where
  "tick_state (Running (Some 0) code) = Exited code"
| "tick_state (Running (Some (Suc n)) code) = Running (Some n) code"
| "tick_state (Running None code) = Running None code"
| "tick_state (Exited code) = Exited code"
| "tick_state Killed = Killed"

definition tick_proc :: "process \<Rightarrow> process" where
  "tick_proc p = p\<lparr>pstate := tick_state (pstate p)\<rparr>"

definition tick :: "world \<Rightarrow> world" where
  "tick w = w\<lparr>procs := map tick_proc (procs w)\<rparr>"

definition py_print :: "world \<Rightarrow> string \<Rightarrow> world" where
  "py_print w s = w\<lparr>trace := trace w @ [Printed s]\<rparr>"

definition nl :: string where
  "nl = [CHR 0x0A]"

text \<open>
  \<^verbatim>\<open>subprocess.Popen(args, stdin=PIPE, stderr=None, shell=False)\<close>: the new process gets
  the next process number, which is the handle the supervisor keeps.
\<close>

definition Popen :: "env \<Rightarrow> world \<Rightarrow> string list \<Rightarrow> error + world \<times> nat" where
  "Popen env w a =
     (let w1 = tick w; pid = length (procs w1) in
      case env pid a of
        Fails \<Rightarrow> Inl OSError
      | Starts life code \<Rightarrow>
          Inr (w1\<lparr>procs := procs w1 @ [\<lparr>argv = a, pstate = Running life code, returncode = None\<rparr>],
                   trace := trace w1 @ [Spawned pid a]\<rparr>, pid))"

text \<open>
  The status the operating system reports for a process that has ended: its exit status,
  or minus the signal number after \<^verbatim>\<open>SIGKILL\<close>.
\<close>

definition wait_status :: "pstate \<Rightarrow> int option" where
  "wait_status st = (case st of Running life code \<Rightarrow> None | Exited code \<Rightarrow> Some code | Killed \<Rightarrow> Some (- 9))"

text \<open>
  \<^verbatim>\<open>proc.poll()\<close>: a recorded \<^verbatim>\<open>returncode\<close> is returned as it is; otherwise the
  process is asked without blocking and, if it has ended, its status is recorded.
  Handles come from \<^verbatim>\<open>Popen\<close> only, so the number is always that of a process; the
  other branch is there to make the function total.
\<close>

definition reap :: "process \<Rightarrow> process" where
  "reap p = (case returncode p of Some r \<Rightarrow> p | None \<Rightarrow> p\<lparr>returncode := wait_status (pstate p)\<rparr>)"

definition poll :: "world \<Rightarrow> nat \<Rightarrow> world \<times> int option" where
  "poll w pid =
     (let w1 = tick w in
      if pid < length (procs w1)
      then (let p = reap (procs w1 ! pid)
            in (w1\<lparr>procs := (procs w1)[pid := p], trace := trace w1 @ [Polled pid]\<rparr>, returncode p))
      else (w1, None))"

definition returncode_of :: "world \<Rightarrow> nat \<Rightarrow> int option" where
  "returncode_of w pid = (if pid < length (procs w) then returncode (procs w ! pid) else None)"

text \<open>
  \<^verbatim>\<open>proc.kill()\<close> (\<^verbatim>\<open>send_signal(SIGKILL)\<close>): the process is polled first and nothing is
  sent to a process whose status is recorded; a running process is killed, and its
  \<^verbatim>\<open>returncode\<close> stays unset until the next poll.
\<close>

definition kill :: "world \<Rightarrow> nat \<Rightarrow> world" where
  "kill w pid =
     (let w1 = tick w in
      if pid < length (procs w1)
      then (let p = reap (procs w1 ! pid);
                p' = (if returncode p = None then p\<lparr>pstate := Killed\<rparr> else p)
            in w1\<lparr>procs := (procs w1)[pid := p'], trace := trace w1 @ [KillCalled pid]\<rparr>)
      else w1)"

subsection \<open>The supervisor object\<close>

text \<open>
  A Python number (the default run time \<^verbatim>\<open>0.5\<close>, or what the caller stores later).
  The supervisor only ever applies \<^verbatim>\<open>str\<close> to it, so it is carried as the text that
  \<^verbatim>\<open>str\<close> gives.
\<close>

datatype number = Number string

fun str_number :: "number \<Rightarrow> string" where
  "str_number (Number t) = t"

text \<open>\<^verbatim>\<open>str(x)\<close> and the truth value of \<open>x\<close>, for \<open>x\<close> either \<^verbatim>\<open>None\<close> or a string.\<close>

definition py_str :: "string option \<Rightarrow> string" where
  "py_str x = (case x of None \<Rightarrow> ''None'' | Some s \<Rightarrow> s)"

definition truthy :: "string option \<Rightarrow> bool" where
  "truthy x = (case x of None \<Rightarrow> False | Some s \<Rightarrow> s \<noteq> [])"

record controller =
  usrp_proc :: "nat option"
  controller_proc :: "nat option"
  converter_proc :: "nat option"
  plotter_proc :: "nat option"
  iperf_client_proc :: "nat option"
  iperf_server_proc :: "nat option"
  iperf_client_addr :: "string option"
  iperf_server_addr :: "string option"
  iperf_rate :: "string option"
  iperf_mem_addr :: "string option"
  iperf_client_args :: "string list"
  iperf_server_args :: "string list"
  run_time :: number
  file_name :: string
  working_dir :: string
  usrp_control_args :: "string list"
  sg_controller_args :: "string list"
  matlab_converter_args :: "string list option"
  matlab_plotter_args :: "string list option"

text \<open>
  \<^verbatim>\<open>__init__(self, test_mode)\<close>, with \<open>cwd\<close> the result of \<^verbatim>\<open>os.getcwd()\<close>.  The two
  MATLAB argument lists exist in test mode only.  Starting the MATLAB engine and the
  messages around it are outside the model.
\<close>

definition init :: "bool \<Rightarrow> string \<Rightarrow> controller" where
  "init test_mode cwd =
     (let client_addr = None; rate = None; mem_addr = None;
          client_args = [''iperf'', ''-c'', py_str client_addr, ''-u'',
                         ''-b'' @ py_str rate @ ''M'', ''-S'', py_str mem_addr, ''-t10000000000''];
          server_args = [''iperf'', ''-s'', ''-u'', ''-t100000000000000''];
          rt = Number ''0.5''
      in \<lparr>usrp_proc = None, controller_proc = None, converter_proc = None, plotter_proc = None,
          iperf_client_proc = None, iperf_server_proc = None,
          iperf_client_addr = client_addr, iperf_server_addr = None,
          iperf_rate = rate, iperf_mem_addr = mem_addr,
          iperf_client_args =
            (if test_mode then [''python3'', cwd @ ''/tests/iperf_sim.py'', py_str client_addr]
             else client_args),
          iperf_server_args = server_args,
          run_time = rt, file_name = [], working_dir = cwd,
          usrp_control_args =
            (if test_mode then [''python3'', cwd @ ''/tests/usrp_sim.py'']
             else [''python'', cwd @ ''/utils/writeIQ.py'', ''123'', str_number rt]),
          sg_controller_args =
            (if test_mode then [''python3'', cwd @ ''/tests/sg_sim.py'']
             else [''python3'', cwd @ ''/utils/ramp_control.py'', str_number rt]),
          matlab_converter_args =
            (if test_mode then Some [''python3'', cwd @ ''/tests/converter_sim.py''] else None),
          matlab_plotter_args =
            (if test_mode then Some [''python3'', cwd @ ''/tests/plotter_sim.py''] else None)\<rparr>)"

subsection \<open>The polling loops\<close>

text \<open>\<^verbatim>\<open>while proc.poll() is None: continue\<close>\<close>

partial_function (option) poll_until_exit :: "world \<Rightarrow> nat \<Rightarrow> world option" where
  "poll_until_exit w pid =
     (case poll w pid of (w1, rc) \<Rightarrow> if rc = None then poll_until_exit w1 pid else Some w1)"

text \<open>
  \<^verbatim>\<open>while True: proc.poll(); if proc.returncode is not None: break\<close>
\<close>

partial_function (option) poll_until_recorded :: "world \<Rightarrow> nat \<Rightarrow> world option" where
  "poll_until_recorded w pid =
     (case poll w pid of (w1, rc) \<Rightarrow>
        if returncode_of w1 pid \<noteq> None then Some w1 else poll_until_recorded w1 pid)"

text \<open>
  \<^verbatim>\<open>while True: a.poll(); b.poll(); if a.returncode is not None and b.returncode is not None: break\<close>
\<close>

partial_function (option) poll_until_both :: "world \<Rightarrow> nat \<Rightarrow> nat \<Rightarrow> world option" where
  "poll_until_both w a b =
     (case poll w a of (w1, ra) \<Rightarrow>
      case poll w1 b of (w2, rb) \<Rightarrow>
        if returncode_of w2 a \<noteq> None \<and> returncode_of w2 b \<noteq> None then Some w2
        else poll_until_both w2 a b)"

subsection \<open>The start operations\<close>

text \<open>
  Each operation is its launch part (everything up to the loop), the loop, and what
  follows the loop.  A result \<open>None\<close> is a call that never returns, \<open>Some (Inl e)\<close> a call
  that raises \<open>e\<close>, \<open>Some (Inr s)\<close> a call that returns in state \<open>s\<close>.  A handle that is
  \<^verbatim>\<open>None\<close> when a method is called on it raises \<^verbatim>\<open>AttributeError\<close>.
\<close>

type_synonym state = "world \<times> controller"

definition capture_args :: "controller \<Rightarrow> string list" where
  "capture_args c =
     [''python'', working_dir c @ ''/utils/writeIQ.py'', file_name c, str_number (run_time c)]"

definition start_usrp_launch :: "env \<Rightarrow> state \<Rightarrow> error + state" where
  "start_usrp_launch env s =
     (case s of (w, c) \<Rightarrow>
        let w1 = py_print w (''Running USRP...'' @ nl);
            c1 = c\<lparr>usrp_control_args := capture_args c\<rparr>
        in case Popen env w1 (usrp_control_args c1) of
             Inl e \<Rightarrow> Inl e
           | Inr (w2, pid) \<Rightarrow> Inr (w2, c1\<lparr>usrp_proc := Some pid\<rparr>))"

definition start_usrp :: "env \<Rightarrow> state \<Rightarrow> (error + state) option" where
  "start_usrp env s =
     (case start_usrp_launch env s of
        Inl e \<Rightarrow> Some (Inl e)
      | Inr (w, c) \<Rightarrow>
          (case usrp_proc c of
             None \<Rightarrow> Some (Inl AttributeError)
           | Some pid \<Rightarrow>
               (case poll_until_exit w pid of
                  None \<Rightarrow> None
                | Some w' \<Rightarrow> Some (Inr (py_print w' (''Done sensing medium'' @ nl), c)))))"

definition start_controller_launch :: "env \<Rightarrow> state \<Rightarrow> error + state" where
  "start_controller_launch env s =
     (case s of (w, c) \<Rightarrow>
        let w1 = py_print w (''Running interference...'' @ nl)
        in case Popen env w1 (sg_controller_args c) of
             Inl e \<Rightarrow> Inl e
           | Inr (w2, pid) \<Rightarrow> Inr (w2, c\<lparr>controller_proc := Some pid\<rparr>))"

text \<open>The parameter \<open>args\<close> of \<^verbatim>\<open>start_controller\<close> is not used by its body.\<close>

definition start_controller :: "env \<Rightarrow> state \<Rightarrow> 'a \<Rightarrow> (error + state) option" where
  "start_controller env s args =
     (case start_controller_launch env s of
        Inl e \<Rightarrow> Some (Inl e)
      | Inr (w, c) \<Rightarrow>
          (case controller_proc c of
             None \<Rightarrow> Some (Inl AttributeError)
           | Some pid \<Rightarrow>
               (case poll_until_exit w pid of
                  None \<Rightarrow> None
                | Some w' \<Rightarrow> Some (Inr (py_print w' (''Done injecting interference'' @ nl), c)))))"

definition start_usrp_controller_launch :: "env \<Rightarrow> state \<Rightarrow> error + state" where
  "start_usrp_controller_launch env s =
     (case s of (w, c) \<Rightarrow>
        let w1 = py_print w (''Running USRP with interference injected...'' @ nl);
            c1 = c\<lparr>usrp_control_args := capture_args c\<rparr>
        in case Popen env w1 (usrp_control_args c1) of
             Inl e \<Rightarrow> Inl e
           | Inr (w2, upid) \<Rightarrow>
               (let c2 = c1\<lparr>usrp_proc := Some upid\<rparr>
                in case Popen env w2 (sg_controller_args c2) of
                     Inl e \<Rightarrow> Inl e
                   | Inr (w3, cpid) \<Rightarrow> Inr (w3, c2\<lparr>controller_proc := Some cpid\<rparr>)))"

definition start_usrp_controller :: "env \<Rightarrow> state \<Rightarrow> (error + state) option" where
  "start_usrp_controller env s =
     (case start_usrp_controller_launch env s of
        Inl e \<Rightarrow> Some (Inl e)
      | Inr (w, c) \<Rightarrow>
          (case (usrp_proc c, controller_proc c) of
             (Some upid, Some cpid) \<Rightarrow>
               (case poll_until_both w upid cpid of
                  None \<Rightarrow> None
                | Some w' \<Rightarrow>
                    Some (Inr (py_print w' (''Done sensing with added interference'' @ nl), c)))
           | _ \<Rightarrow> Some (Inl AttributeError)))"

definition start_usrp_iperf_launch :: "env \<Rightarrow> state \<Rightarrow> error + state" where
  "start_usrp_iperf_launch env s =
     (case s of (w, c) \<Rightarrow>
        let w1 = py_print w (''Running USRP with interference injected...'' @ nl)
        in case (if truthy (iperf_client_addr c)
                 then (case Popen env w1 (iperf_client_args c) of
                         Inl e \<Rightarrow> Inl e
                       | Inr (w2, pid) \<Rightarrow> Inr (w2, c\<lparr>iperf_client_proc := Some pid\<rparr>))
                 else Inr (w1, c)) of
             Inl e \<Rightarrow> Inl e
           | Inr (w2, c2) \<Rightarrow>
               (case Popen env w2 (iperf_server_args c2) of
                  Inl e \<Rightarrow> Inl e
                | Inr (w3, spid) \<Rightarrow>
                    (let c3 = c2\<lparr>iperf_server_proc := Some spid\<rparr>;
                         c4 = c3\<lparr>usrp_control_args := capture_args c3\<rparr>
                     in case Popen env w3 (usrp_control_args c4) of
                          Inl e \<Rightarrow> Inl e
                        | Inr (w4, upid) \<Rightarrow> Inr (w4, c4\<lparr>usrp_proc := Some upid\<rparr>))))"

definition start_usrp_iperf_teardown :: "state \<Rightarrow> error + state" where
  "start_usrp_iperf_teardown s =
     (case s of (w, c) \<Rightarrow>
        case (if truthy (iperf_client_addr c)
              then (case iperf_client_proc c of
                      None \<Rightarrow> Inl AttributeError
                    | Some pid \<Rightarrow> Inr (kill w pid))
              else Inr w) of
          Inl e \<Rightarrow> Inl e
        | Inr w1 \<Rightarrow>
            (case iperf_server_proc c of
               None \<Rightarrow> Inl AttributeError
             | Some spid \<Rightarrow> Inr (py_print (kill w1 spid) (''Done sensing with iperf'' @ nl), c)))"

definition start_usrp_iperf :: "env \<Rightarrow> state \<Rightarrow> (error + state) option" where
  "start_usrp_iperf env s =
     (case start_usrp_iperf_launch env s of
        Inl e \<Rightarrow> Some (Inl e)
      | Inr (w, c) \<Rightarrow>
          (case usrp_proc c of
             None \<Rightarrow> Some (Inl AttributeError)
           | Some upid \<Rightarrow>
               (case poll_until_recorded w upid of
                  None \<Rightarrow> None
                | Some w' \<Rightarrow> Some (start_usrp_iperf_teardown (w', c)))))"

definition start_iperf_launch :: "env \<Rightarrow> state \<Rightarrow> error + state" where
  "start_iperf_launch env s =
     (case s of (w, c) \<Rightarrow>
        let w1 = py_print w (''Running iperf...'' @ nl)
        in case Popen env w1 (iperf_client_args c) of
             Inl e \<Rightarrow> Inl e
           | Inr (w2, cpid) \<Rightarrow>
               (let c2 = c\<lparr>iperf_client_proc := Some cpid\<rparr>
                in case Popen env w2 (iperf_server_args c2) of
                     Inl e \<Rightarrow> Inl e
                   | Inr (w3, spid) \<Rightarrow> Inr (w3, c2\<lparr>iperf_server_proc := Some spid\<rparr>)))"

definition start_iperf :: "env \<Rightarrow> state \<Rightarrow> (error + state) option" where
  "start_iperf env s =
     (case start_iperf_launch env s of
        Inl e \<Rightarrow> Some (Inl e)
      | Inr (w, c) \<Rightarrow>
          (case (iperf_client_proc c, iperf_server_proc c) of
             (Some cpid, Some spid) \<Rightarrow>
               (case poll_until_both w cpid spid of
                  None \<Rightarrow> None
                | Some w' \<Rightarrow> Some (Inr (py_print w' (''Done running iperf'' @ nl), c)))
           | _ \<Rightarrow> Some (Inl AttributeError)))"

declare poll_until_exit.simps [code]
declare poll_until_recorded.simps [code]
declare poll_until_both.simps [code]

subsection \<open>Callers\<close>

text \<open>
  What a caller does with a supervisor between construction and exit: it assigns to the
  public fields and calls the start operations, one after the other; an exception that
  leaves an operation ends the sequence.  The two MATLAB operations start no process and
  are not among the actions.
\<close>

datatype action =
    StartUsrp | StartController | StartUsrpController | StartUsrpIperf | StartIperf
  | SetFileName string | SetRunTime number
  | SetClientAddr "string option" | SetServerAddr "string option"
  | SetRate "string option" | SetMemAddr "string option"

fun exec :: "env \<Rightarrow> action \<Rightarrow> state \<Rightarrow> (error + state) option" where
  "exec env StartUsrp s = start_usrp env s"
| "exec env StartController s = start_controller env s ()"
| "exec env StartUsrpController s = start_usrp_controller env s"
| "exec env StartUsrpIperf s = start_usrp_iperf env s"
| "exec env StartIperf s = start_iperf env s"
| "exec env (SetFileName f) (w, c) = Some (Inr (w, c\<lparr>file_name := f\<rparr>))"
| "exec env (SetRunTime r) (w, c) = Some (Inr (w, c\<lparr>run_time := r\<rparr>))"
| "exec env (SetClientAddr a) (w, c) = Some (Inr (w, c\<lparr>iperf_client_addr := a\<rparr>))"
| "exec env (SetServerAddr a) (w, c) = Some (Inr (w, c\<lparr>iperf_server_addr := a\<rparr>))"
| "exec env (SetRate r) (w, c) = Some (Inr (w, c\<lparr>iperf_rate := r\<rparr>))"
| "exec env (SetMemAddr m) (w, c) = Some (Inr (w, c\<lparr>iperf_mem_addr := m\<rparr>))"

fun run :: "env \<Rightarrow> action list \<Rightarrow> state \<Rightarrow> (error + state) option" where
  "run env [] s = Some (Inr s)"
| "run env (a # as) s =
     (case exec env a s of
        None \<Rightarrow> None
      | Some (Inl e) \<Rightarrow> Some (Inl e)
      | Some (Inr s') \<Rightarrow> run env as s')"

subsection \<open>Predicates used in the statements\<close>

text \<open>A process that ends by itself sooner or later, or whose end is already recorded.\<close>

definition mortal :: "process \<Rightarrow> bool" where
  "mortal p = (returncode p \<noteq> None \<or> (\<forall>code. pstate p \<noteq> Running None code))"

text \<open>The same with a bound on the number of calls it takes.\<close>

definition dies_within :: "nat \<Rightarrow> process \<Rightarrow> bool" where
  "dies_within N p =
     (returncode p \<noteq> None \<or>
      (case pstate p of Running None code \<Rightarrow> False | Running (Some n) code \<Rightarrow> n < N
       | Exited code \<Rightarrow> True | Killed \<Rightarrow> True))"

text \<open>A recorded return code belongs to a process that has ended.\<close>

definition settled :: "process \<Rightarrow> bool" where
  "settled p = (returncode p \<noteq> None \<longrightarrow> \<not> is_running p)"

text \<open>
  What every call leaves alone in a process: its arguments, the fact that it has ended,
  and a return code once recorded.
\<close>

definition pstep :: "process \<Rightarrow> process \<Rightarrow> bool" where
  "pstep p p' =
     (argv p' = argv p \<and> (\<not> is_running p \<longrightarrow> \<not> is_running p') \<and>
      (returncode p \<noteq> None \<longrightarrow> returncode p' = returncode p) \<and>
      (settled p \<longrightarrow> settled p'))"

definition evolves :: "world \<Rightarrow> world \<Rightarrow> bool" where
  "evolves w w' =
     (length (procs w) \<le> length (procs w') \<and>
      (\<forall>i < length (procs w). pstep (procs w ! i) (procs w' ! i)))"

definition no_running :: "world \<Rightarrow> bool" where
  "no_running w = (\<forall>p \<in> set (procs w). \<not> is_running p)"

text \<open>What a loop over one process has achieved when it returns.\<close>

definition loop_post :: "world \<Rightarrow> nat \<Rightarrow> world \<Rightarrow> bool" where
  "loop_post w pid y =
     (pid < length (procs w) \<and> length (procs y) = length (procs w) \<and> evolves w y \<and>
      returncode_of y pid \<noteq> None \<and> mortal (procs w ! pid) \<and>
      (\<exists>k. trace y = trace w @ replicate (Suc k) (Polled pid)))"

text \<open>One round of the loop over two processes, and what that loop has achieved.\<close>

definition round2 :: "world \<Rightarrow> nat \<Rightarrow> nat \<Rightarrow> world" where
  "round2 w a b = fst (poll (fst (poll w a)) b)"

definition both_post :: "world \<Rightarrow> nat \<Rightarrow> nat \<Rightarrow> world \<Rightarrow> bool" where
  "both_post w a b y =
     (a < length (procs w) \<and> b < length (procs w) \<and> length (procs y) = length (procs w) \<and>
      evolves w y \<and> returncode_of y a \<noteq> None \<and> returncode_of y b \<noteq> None \<and>
      mortal (procs w ! a) \<and> mortal (procs w ! b) \<and>
      (\<exists>k. trace y = trace w @ concat (replicate (Suc k) [Polled a, Polled b])))"

text \<open>
  A process started with arguments \<open>a\<close> and life \<open>life\<close>, seen after any number of calls.
\<close>

definition fresh :: "string list \<Rightarrow> nat option \<Rightarrow> process \<Rightarrow> bool" where
  "fresh a life p = (argv p = a \<and> settled p \<and> (mortal p \<longleftrightarrow> life \<noteq> None))"

subsection \<open>A concrete scenario\<close>

text \<open>
  A supervisor built in real mode in \<^verbatim>\<open>/home/u\<close>, no process started yet, and a
  behaviour in which \<^verbatim>\<open>iperf\<close> runs for ever and every other program ends with status 0
  after a few calls.
\<close>

definition ex_env :: env where
  "ex_env n a = (if a \<noteq> [] \<and> hd a = ''iperf'' then Starts None 0 else Starts (Some (n + 2)) 0)"

definition ex_world :: world where
  "ex_world = \<lparr>procs = [], trace = []\<rparr>"

definition ex_controller :: controller where
  "ex_controller = init False ''/home/u''"

text \<open>A behaviour in which no program ever ends by itself.\<close>

definition never_env :: env where
  "never_env n a = Starts None 0"

text \<open>A behaviour in which the \<open>n\<close>-th process ends after \<open>n\<close> calls with status \<open>n\<close>.\<close>

definition quick_env :: env where
  "quick_env n a = Starts (Some n) (int n)"

text \<open>
  The process number the iperf server gets in \<open>start_usrp_iperf\<close>: the client, when there
  is one, is started before it.  The capture process gets the number after it.
\<close>

definition server_pid :: "world \<Rightarrow> controller \<Rightarrow> nat" where
  "server_pid w c = length (procs w) + (if truthy (iperf_client_addr c) then 1 else 0)"


text \<open>The same supervisor after the caller has changed file name and run time.\<close>

definition ex_renamed :: controller where
  "ex_renamed = ex_controller\<lparr>file_name := ''run2'', run_time := Number ''2''\<rparr>"

section \<open>Properties of the scan helper\<close>

subsection \<open>The maximum\<close>












subsection \<open>Cells without a level, and no cells at all\<close>

lemma cells_loop_map:
  "cells_loop arr index cells =
     cells @ map (\<lambda>a. \<lparr>essid = get_essid a, level = get_level a\<rparr>) (if index = 0 then tl arr else arr)"
  by (induction arr arbitrary: index cells) auto

lemma get_cells_map:
  "get_cells s = map (\<lambda>a. \<lparr>essid = get_essid a, level = get_level a\<rparr>) (tl (split_str s ''Cell''))"
  by (simp add: get_cells_def cells_loop_map)














lemma startswith_iff: "startswith p s \<longleftrightarrow> (\<exists>post. s = p @ post)"
  unfolding startswith_def by (metis append_eq_conv_conj append_take_drop_id)

lemma contains_str_Nil: "sep \<noteq> [] \<Longrightarrow> \<not> contains_str sep []"
  by (simp add: contains_str_def)

lemma contains_str_Cons:
  "contains_str sep (c # cs) \<longleftrightarrow> startswith sep (c # cs) \<or> contains_str sep cs"
proof
  assume "contains_str sep (c # cs)"
  then obtain pre post where p: "c # cs = pre @ sep @ post" unfolding contains_str_def by blast
  show "startswith sep (c # cs) \<or> contains_str sep cs"
  proof (cases pre)
    case Nil
    with p show ?thesis by (auto simp: startswith_iff)
  next
    case (Cons x pre')
    with p have "cs = pre' @ sep @ post" by simp
    then show ?thesis unfolding contains_str_def by blast
  qed
next
  assume "startswith sep (c # cs) \<or> contains_str sep cs"
  then show "contains_str sep (c # cs)"
  proof
    assume "startswith sep (c # cs)"
    then obtain post where "c # cs = [] @ sep @ post" by (auto simp: startswith_iff)
    then show ?thesis unfolding contains_str_def by blast
  next
    assume "contains_str sep cs"
    then obtain pre post where "cs = pre @ sep @ post" unfolding contains_str_def by blast
    then have "c # cs = (c # pre) @ sep @ post" by simp
    then show ?thesis unfolding contains_str_def by blast
  qed
qed

lemma split_acc_nonempty: "split_acc sep acc s \<noteq> []"
  by (induction sep acc s rule: split_acc.induct) auto

lemma split_acc_single:
  "sep \<noteq> [] \<Longrightarrow> tl (split_acc sep acc s) = [] \<longleftrightarrow> \<not> contains_str sep s"
proof (induction sep acc s rule: split_acc.induct)
  case (1 sep acc)
  then show ?case by (simp add: contains_str_Nil)
next
  case (2 sep acc c cs)
  show ?case
  proof (cases "startswith sep (c # cs)")
    case True
    then show ?thesis using 2(3) split_acc_nonempty[of sep "[]" "drop (length sep) (c # cs)"]
      by (simp add: contains_str_Cons)
  next
    case False
    then show ?thesis using 2(2)[OF _ 2(3)] by (simp add: contains_str_Cons)
  qed
qed

lemma get_cells_empty_iff: "get_cells data = [] \<longleftrightarrow> \<not> contains_str ''Cell'' data"
  using split_acc_single[of "''Cell''" "[]" data] by (simp add: get_cells_map split_str_def)

text \<open>
  Claim C7.  The scan text yields no cells exactly when \<^verbatim>\<open>Cell\<close> does not occur in it.
  Then \<open>max_cell_level\<close> on the empty list raises \<^verbatim>\<open>IndexError\<close> (the final
  \<^verbatim>\<open>arr[index]\<close> with \<open>index = 0\<close>), and so does the scan as a whole: there is no
  value and no separate result for "no networks".
\<close>

theorem max_cell_level_empty_IndexError:
  "(get_cells data = []) = (\<not> contains_str ''Cell'' data) \<and>
   (get_cells data = [] \<longrightarrow>
      max_cell_level (get_cells data) = Inl IndexError \<and> network_scan data = Inl IndexError)"
proof -
  have "max_cell_level [] = Inl IndexError" by (simp add: max_cell_level_def)
  then have "max_cell_level (get_cells data) = Inl IndexError \<and> network_scan data = Inl IndexError"
    if "get_cells data = []"
    using that by (simp add: network_scan_def)
  with get_cells_empty_iff[of data] show ?thesis by blast
qed

theorem max_cell_level_empty_IndexError_witness:
  "get_cells ''wlan0     No scan results'' = [] \<and>
   \<not> contains_str ''Cell'' ''wlan0     No scan results'' \<and>
   max_cell_level (get_cells ''wlan0     No scan results'') = Inl IndexError \<and>
   network_scan ''wlan0     No scan results'' = Inl IndexError"
proof -
  have h: "get_cells ''wlan0     No scan results'' = []" by code_simp
  note t = max_cell_level_empty_IndexError[of "''wlan0     No scan results''"]
  from t[THEN conjunct1] h have "\<not> contains_str ''Cell'' ''wlan0     No scan results''" by blast
  with t[THEN conjunct2, rule_format, OF h] h show ?thesis by blast
qed



section \<open>Properties of the supervisor model\<close>

subsection \<open>Single processes\<close>

lemma tick_state_running: "is_running (tick_proc p) \<Longrightarrow> is_running p"
  by (cases "pstate p" rule: tick_state.cases) (auto simp: is_running_def tick_proc_def)

lemma pstep_refl: "pstep p p"
  by (simp add: pstep_def)

lemma pstep_trans: "pstep p q \<Longrightarrow> pstep q r \<Longrightarrow> pstep p r"
  by (auto simp: pstep_def)

lemma pstep_tick: "pstep p (tick_proc p)"
  using tick_state_running[of p]
  by (auto simp: pstep_def settled_def) (auto simp: tick_proc_def)

lemma pstep_reap: "pstep p (reap p)"
  by (cases "pstate p")
     (auto simp: pstep_def settled_def reap_def is_running_def wait_status_def split: option.splits)

lemma pstep_killed: "pstep p (if returncode p = None then p\<lparr>pstate := Killed\<rparr> else p)"
  by (auto simp: pstep_def settled_def is_running_def)

lemma not_running_killed:
  "\<not> is_running (if returncode p = None then p\<lparr>pstate := Killed\<rparr> else p) \<or> \<not> settled p"
  by (auto simp: settled_def is_running_def)

lemma settled_new: "settled \<lparr>argv = a, pstate = st, returncode = None\<rparr>"
  by (simp add: settled_def)

lemma reap_recorded_iff: "returncode (reap p) \<noteq> None \<longleftrightarrow> returncode p \<noteq> None \<or> \<not> is_running p"
  by (cases "pstate p") (auto simp: reap_def is_running_def wait_status_def split: option.splits)

lemma dies_within_0: "dies_within 0 p \<longleftrightarrow> returncode p \<noteq> None \<or> \<not> is_running p"
  by (cases "pstate p") (auto simp: dies_within_def is_running_def split: option.splits)

lemma dies_within_tick: "dies_within (Suc N) p \<longleftrightarrow> dies_within N (tick_proc p)"
  by (cases "pstate p" rule: tick_state.cases) (auto simp: dies_within_def tick_proc_def)

lemma dies_within_tick0: "dies_within 0 p \<Longrightarrow> dies_within 0 (tick_proc p)"
  by (cases "pstate p" rule: tick_state.cases) (auto simp: dies_within_def tick_proc_def)

lemma dies_within_reap: "dies_within N (reap p) \<longleftrightarrow> dies_within N p"
  by (cases "pstate p") (auto simp: dies_within_def reap_def wait_status_def split: option.splits)

lemma dies_within_mono: "dies_within N p \<Longrightarrow> N \<le> M \<Longrightarrow> dies_within M p"
  by (cases "pstate p") (auto simp: dies_within_def split: option.splits)

lemma mortal_iff: "mortal p \<longleftrightarrow> (\<exists>N. dies_within N p)"
proof (cases "pstate p")
  case (Running life code)
  then show ?thesis
    by (cases life) (auto simp: mortal_def dies_within_def)
qed (auto simp: mortal_def dies_within_def)

lemma mortal_tick: "mortal (tick_proc p) \<longleftrightarrow> mortal p"
  by (cases "pstate p" rule: tick_state.cases) (auto simp: mortal_def tick_proc_def)

lemma mortal_new:
  "mortal \<lparr>argv = a, pstate = Running life code, returncode = None\<rparr> \<longleftrightarrow> life \<noteq> None"
  by (auto simp: mortal_def)

subsection \<open>The calls\<close>

lemma procs_tick: "procs (tick w) = map tick_proc (procs w)"
  by (simp add: tick_def)

lemma trace_tick: "trace (tick w) = trace w"
  by (simp add: tick_def)

lemma procs_print: "procs (py_print w s) = procs w"
  by (simp add: py_print_def)

lemma trace_print: "trace (py_print w s) = trace w @ [Printed s]"
  by (simp add: py_print_def)

lemma Popen_Inr:
  assumes "Popen env w a = Inr (w', pid)"
  shows "pid = length (procs w)"
    and "trace w' = trace w @ [Spawned pid a]"
    and "\<exists>life code. env (length (procs w)) a = Starts life code \<and>
           procs w' = map tick_proc (procs w) @
             [\<lparr>argv = a, pstate = Running life code, returncode = None\<rparr>]"
  using assms by (auto simp: Popen_def Let_def procs_tick trace_tick split: launch.splits)

lemma Popen_Inl: "Popen env w a = Inl e \<longleftrightarrow> e = OSError \<and> env (length (procs w)) a = Fails"
  by (auto simp: Popen_def Let_def procs_tick split: launch.splits)

lemma Popen_Starts:
  "env (length (procs w)) a = Starts life code \<Longrightarrow>
     \<exists>w'. Popen env w a = Inr (w', length (procs w))"
  by (simp add: Popen_def Let_def procs_tick)

lemma poll_valid:
  assumes "pid < length (procs w)"
  shows "poll w pid =
     (\<lparr>procs = (map tick_proc (procs w))[pid := reap (tick_proc (procs w ! pid))],
       trace = trace w @ [Polled pid]\<rparr>,
      returncode (reap (tick_proc (procs w ! pid))))"
  using assms by (simp add: poll_def Let_def tick_def)

lemma poll_invalid: "\<not> pid < length (procs w) \<Longrightarrow> poll w pid = (tick w, None)"
  by (simp add: poll_def Let_def tick_def)

lemma kill_valid:
  assumes "pid < length (procs w)"
  shows "kill w pid =
     \<lparr>procs = (map tick_proc (procs w))
         [pid := (let p = reap (tick_proc (procs w ! pid))
                  in if returncode p = None then p\<lparr>pstate := Killed\<rparr> else p)],
       trace = trace w @ [KillCalled pid]\<rparr>"
  using assms by (simp add: kill_def Let_def tick_def)

lemma evolves_refl: "evolves w w"
  by (simp add: evolves_def pstep_refl)

lemma evolves_trans: "evolves w w' \<Longrightarrow> evolves w' w'' \<Longrightarrow> evolves w w''"
  unfolding evolves_def by (meson le_trans less_le_trans pstep_trans)

lemma evolves_tick: "evolves w (tick w)"
  by (simp add: evolves_def procs_tick pstep_tick)

lemma evolves_print: "evolves w (py_print w s)"
  by (simp add: evolves_def procs_print pstep_refl)

lemma evolves_poll: "evolves w (fst (poll w pid))"
proof (cases "pid < length (procs w)")
  case True
  have "pstep (procs w ! i) ((map tick_proc (procs w))[pid := reap (tick_proc (procs w ! pid))] ! i)"
    if "i < length (procs w)" for i
    using that pstep_tick[of "procs w ! i"] pstep_trans[OF pstep_tick pstep_reap, of "procs w ! pid"]
    by (cases "i = pid") auto
  then show ?thesis using True by (simp add: poll_valid evolves_def)
next
  case False
  then show ?thesis by (simp add: poll_invalid evolves_tick)
qed

lemma evolves_kill: "evolves w (kill w pid)"
proof (cases "pid < length (procs w)")
  case True
  let ?q = "reap (tick_proc (procs w ! pid))"
  have q: "pstep (procs w ! pid) (if returncode ?q = None then ?q\<lparr>pstate := Killed\<rparr> else ?q)"
    using pstep_trans[OF pstep_trans[OF pstep_tick pstep_reap] pstep_killed] .
  have "pstep (procs w ! i) (procs (kill w pid) ! i)" if "i < length (procs w)" for i
    using that pstep_tick[of "procs w ! i"] q True
    by (cases "i = pid") (auto simp: kill_valid Let_def)
  then show ?thesis using True by (simp add: kill_valid evolves_def)
next
  case False
  then show ?thesis by (simp add: kill_def Let_def procs_tick evolves_tick)
qed

lemma evolves_Popen: "Popen env w a = Inr (w', pid) \<Longrightarrow> evolves w w'"
  using Popen_Inr(3)[of env w a w' pid]
  by (auto simp: evolves_def nth_append pstep_tick)

lemma length_poll: "length (procs (fst (poll w pid))) = length (procs w)"
  by (cases "pid < length (procs w)") (simp_all add: poll_valid poll_invalid procs_tick)

lemma length_kill: "length (procs (kill w pid)) = length (procs w)"
  by (cases "pid < length (procs w)") (simp_all add: kill_valid kill_def Let_def procs_tick)

lemma kill_not_running:
  "pid < length (procs w) \<Longrightarrow> settled (procs w ! pid) \<Longrightarrow> \<not> is_running (procs (kill w pid) ! pid)"
proof -
  assume v: "pid < length (procs w)" and s: "settled (procs w ! pid)"
  let ?q = "reap (tick_proc (procs w ! pid))"
  have "pstep (procs w ! pid) ?q" using pstep_trans[OF pstep_tick pstep_reap] .
  with s have "settled ?q" by (simp add: pstep_def)
  with not_running_killed[of ?q] v show ?thesis by (simp add: kill_valid Let_def)
qed

lemma mortal_reap: "mortal (reap p) \<longleftrightarrow> mortal p"
  by (simp add: mortal_iff dies_within_reap)

lemma nth_procs_poll:
  "i < length (procs w) \<Longrightarrow>
     procs (fst (poll w pid)) ! i =
       (if i = pid then reap (tick_proc (procs w ! i)) else tick_proc (procs w ! i))"
  by (cases "pid < length (procs w)") (auto simp: poll_valid poll_invalid procs_tick)

lemma mortal_poll:
  "i < length (procs w) \<Longrightarrow> mortal (procs (fst (poll w pid)) ! i) \<longleftrightarrow> mortal (procs w ! i)"
  by (simp add: nth_procs_poll mortal_reap mortal_tick)

lemma dies_within_poll:
  "i < length (procs w) \<Longrightarrow>
     dies_within N (procs (fst (poll w pid)) ! i) \<longleftrightarrow> dies_within (Suc N) (procs w ! i)"
  by (simp add: nth_procs_poll dies_within_reap dies_within_tick)

lemma recorded_mortal: "returncode p \<noteq> None \<Longrightarrow> mortal p"
  by (simp add: mortal_def)

lemma poll_rc:
  "poll w pid = (w1, rc) \<Longrightarrow> rc = returncode_of w1 pid"
  by (cases "pid < length (procs w)")
     (auto simp: poll_valid poll_invalid returncode_of_def procs_tick)

lemma poll_recorded_valid:
  "returncode_of (fst (poll w pid)) i \<noteq> None \<Longrightarrow> i < length (procs w)"
  using length_poll[of w pid] by (auto simp: returncode_of_def split: if_splits)

lemma trace_poll: "pid < length (procs w) \<Longrightarrow> trace (fst (poll w pid)) = trace w @ [Polled pid]"
  by (simp add: poll_valid)

lemma poll_dead_recorded:
  assumes "pid < length (procs w)" "dies_within 0 (procs w ! pid)"
  shows "returncode_of (fst (poll w pid)) pid \<noteq> None"
proof -
  from assms(2) have "dies_within 0 (tick_proc (procs w ! pid))" by (rule dies_within_tick0)
  then have "returncode (reap (tick_proc (procs w ! pid))) \<noteq> None"
    unfolding reap_recorded_iff dies_within_0 .
  then show ?thesis using assms(1) by (simp add: returncode_of_def length_poll nth_procs_poll)
qed

lemma poll_keeps_recorded:
  "returncode_of w i \<noteq> None \<Longrightarrow> returncode_of (fst (poll w pid)) i \<noteq> None"
  using evolves_poll[of w pid] length_poll[of w pid]
  by (auto simp: returncode_of_def evolves_def pstep_def split: if_splits)

subsection \<open>Loops\<close>

lemma loop_post_exit:
  assumes "returncode_of (fst (poll w pid)) pid \<noteq> None"
  shows "loop_post w pid (fst (poll w pid))"
proof -
  from assms have v: "pid < length (procs w)" by (rule poll_recorded_valid)
  from assms have "returncode (procs (fst (poll w pid)) ! pid) \<noteq> None"
    by (simp add: returncode_of_def split: if_splits)
  then have "mortal (procs (fst (poll w pid)) ! pid)" by (rule recorded_mortal)
  then have m: "mortal (procs w ! pid)" using v by (simp add: mortal_poll)
  have "trace (fst (poll w pid)) = trace w @ replicate (Suc 0) (Polled pid)"
    using v by (simp add: trace_poll)
  then show ?thesis
    using v m assms evolves_poll[of w pid] length_poll[of w pid]
    unfolding loop_post_def by blast
qed

lemma loop_post_step:
  assumes "loop_post (fst (poll w pid)) pid y"
  shows "loop_post w pid y"
proof -
  from assms have v: "pid < length (procs w)" by (simp add: loop_post_def length_poll)
  from assms obtain k where
    "trace y = trace (fst (poll w pid)) @ replicate (Suc k) (Polled pid)"
    unfolding loop_post_def by blast
  then have "trace y = trace w @ replicate (Suc (Suc k)) (Polled pid)"
    using v by (simp add: trace_poll)
  moreover have "mortal (procs w ! pid)" using assms v by (simp add: loop_post_def mortal_poll)
  moreover have "evolves w y"
  proof -
    from assms have "evolves (fst (poll w pid)) y" by (simp add: loop_post_def)
    with evolves_poll[of w pid] show ?thesis by (rule evolves_trans)
  qed
  moreover have "length (procs y) = length (procs w)" "returncode_of y pid \<noteq> None"
    using assms by (simp_all add: loop_post_def length_poll)
  ultimately show ?thesis using v unfolding loop_post_def by blast
qed

lemma poll_until_exit_post:
  assumes "poll_until_exit w0 pid0 = Some y0"
  shows "loop_post w0 pid0 y0"
proof (rule poll_until_exit.raw_induct[where P = loop_post])
  show "poll_until_exit w0 pid0 = Some y0" by fact
next
  fix f w pid y
  assume IH: "\<And>w pid y. f w pid = Some y \<Longrightarrow> loop_post w pid y"
    and eq: "(case poll w pid of (w1, rc) \<Rightarrow> if rc = None then f w1 pid else Some w1) = Some y"
  obtain w1 rc where p: "poll w pid = (w1, rc)" by (cases "poll w pid")
  then have rc: "rc = returncode_of w1 pid" by (rule poll_rc)
  show "loop_post w pid y"
  proof (cases "rc = None")
    case True
    with eq p have "f w1 pid = Some y" by simp
    then have "loop_post w1 pid y" by (rule IH)
    then show ?thesis using loop_post_step[of w pid y] p by simp
  next
    case False
    with eq p have "y = w1" by simp
    then show ?thesis using loop_post_exit[of w pid] p rc False by simp
  qed
qed

lemma poll_until_recorded_post:
  assumes "poll_until_recorded w0 pid0 = Some y0"
  shows "loop_post w0 pid0 y0"
proof (rule poll_until_recorded.raw_induct[where P = loop_post])
  show "poll_until_recorded w0 pid0 = Some y0" by fact
next
  fix f w pid y
  assume IH: "\<And>w pid y. f w pid = Some y \<Longrightarrow> loop_post w pid y"
    and eq: "(case poll w pid of (w1, rc) \<Rightarrow>
                if returncode_of w1 pid \<noteq> None then Some w1 else f w1 pid) = Some y"
  obtain w1 rc where p: "poll w pid = (w1, rc)" by (cases "poll w pid")
  show "loop_post w pid y"
  proof (cases "returncode_of w1 pid = None")
    case True
    with eq p have "f w1 pid = Some y" by simp
    then have "loop_post w1 pid y" by (rule IH)
    then show ?thesis using loop_post_step[of w pid y] p by simp
  next
    case False
    with eq p have "y = w1" by simp
    then show ?thesis using loop_post_exit[of w pid] p False by simp
  qed
qed

lemma poll_until_exit_returns:
  "pid < length (procs w) \<Longrightarrow> dies_within N (procs w ! pid) \<Longrightarrow> \<exists>y. poll_until_exit w pid = Some y"
proof (induction N arbitrary: w)
  case 0
  then have "returncode_of (fst (poll w pid)) pid \<noteq> None" by (simp add: poll_dead_recorded)
  then have "snd (poll w pid) \<noteq> None" using poll_rc[of w pid "fst (poll w pid)" "snd (poll w pid)"] by simp
  then show ?case by (subst poll_until_exit.simps) (auto split: prod.splits)
next
  case (Suc N)
  obtain w1 rc where p: "poll w pid = (w1, rc)" by (cases "poll w pid")
  show ?case
  proof (cases "rc = None")
    case True
    have "pid < length (procs w1)" using Suc.prems(1) length_poll[of w pid] p by simp
    moreover have "dies_within N (procs w1 ! pid)"
      using Suc.prems dies_within_poll[of pid w N pid] p by simp
    ultimately obtain y where "poll_until_exit w1 pid = Some y" using Suc.IH by blast
    then show ?thesis using p True by (subst poll_until_exit.simps) simp
  next
    case False
    then show ?thesis using p by (subst poll_until_exit.simps) auto
  qed
qed

lemma poll_until_recorded_returns:
  "pid < length (procs w) \<Longrightarrow> dies_within N (procs w ! pid) \<Longrightarrow>
     \<exists>y. poll_until_recorded w pid = Some y"
proof (induction N arbitrary: w)
  case 0
  then have "returncode_of (fst (poll w pid)) pid \<noteq> None" by (simp add: poll_dead_recorded)
  then show ?case by (subst poll_until_recorded.simps) (auto split: prod.splits)
next
  case (Suc N)
  obtain w1 rc where p: "poll w pid = (w1, rc)" by (cases "poll w pid")
  show ?case
  proof (cases "returncode_of w1 pid = None")
    case True
    have "pid < length (procs w1)" using Suc.prems(1) length_poll[of w pid] p by simp
    moreover have "dies_within N (procs w1 ! pid)"
      using Suc.prems dies_within_poll[of pid w N pid] p by simp
    ultimately obtain y where "poll_until_recorded w1 pid = Some y" using Suc.IH by blast
    then show ?thesis using p True by (subst poll_until_recorded.simps) simp
  next
    case False
    then show ?thesis using p by (subst poll_until_recorded.simps) simp
  qed
qed

lemma poll_until_exit_iff:
  "(\<exists>y. poll_until_exit w pid = Some y) \<longleftrightarrow> pid < length (procs w) \<and> mortal (procs w ! pid)"
  using poll_until_exit_post[of w pid] poll_until_exit_returns[of pid w]
  by (auto simp: loop_post_def mortal_iff)

lemma poll_until_recorded_iff:
  "(\<exists>y. poll_until_recorded w pid = Some y) \<longleftrightarrow> pid < length (procs w) \<and> mortal (procs w ! pid)"
  using poll_until_recorded_post[of w pid] poll_until_recorded_returns[of pid w]
  by (auto simp: loop_post_def mortal_iff)

lemma length_round2: "length (procs (round2 w a b)) = length (procs w)"
  by (simp add: round2_def length_poll)

lemma evolves_round2: "evolves w (round2 w a b)"
  unfolding round2_def using evolves_poll evolves_poll by (rule evolves_trans)

lemma trace_round2:
  "a < length (procs w) \<Longrightarrow> b < length (procs w) \<Longrightarrow>
     trace (round2 w a b) = trace w @ [Polled a, Polled b]"
  by (simp add: round2_def trace_poll length_poll)

lemma mortal_round2:
  "i < length (procs w) \<Longrightarrow> mortal (procs (round2 w a b) ! i) \<longleftrightarrow> mortal (procs w ! i)"
  by (simp add: round2_def mortal_poll length_poll)

lemma dies_within_round2:
  "i < length (procs w) \<Longrightarrow>
     dies_within N (procs (round2 w a b) ! i) \<longleftrightarrow> dies_within (Suc (Suc N)) (procs w ! i)"
  by (simp add: round2_def dies_within_poll length_poll)

lemma round2_recorded_valid:
  "returncode_of (round2 w a b) i \<noteq> None \<Longrightarrow> i < length (procs w)"
  using length_round2[of w a b] by (auto simp: returncode_of_def split: if_splits)

lemma round2_dead_recorded:
  assumes "a < length (procs w)" "b < length (procs w)"
    and "dies_within 0 (procs w ! a)" "dies_within 0 (procs w ! b)"
  shows "returncode_of (round2 w a b) a \<noteq> None \<and> returncode_of (round2 w a b) b \<noteq> None"
proof -
  have "returncode_of (fst (poll w a)) a \<noteq> None" using assms(1,3) by (rule poll_dead_recorded)
  then have 1: "returncode_of (round2 w a b) a \<noteq> None"
    unfolding round2_def by (rule poll_keeps_recorded)
  have "dies_within (Suc 0) (procs w ! b)" using assms(4) by (rule dies_within_mono) simp
  then have "dies_within 0 (procs (fst (poll w a)) ! b)" using assms(2) by (simp add: dies_within_poll)
  moreover have "b < length (procs (fst (poll w a)))" using assms(2) by (simp add: length_poll)
  ultimately have "returncode_of (round2 w a b) b \<noteq> None"
    unfolding round2_def by (rule poll_dead_recorded[rotated])
  with 1 show ?thesis by simp
qed

lemma both_post_exit:
  assumes "returncode_of (round2 w a b) a \<noteq> None" "returncode_of (round2 w a b) b \<noteq> None"
  shows "both_post w a b (round2 w a b)"
proof -
  have v: "a < length (procs w)" "b < length (procs w)"
    using round2_recorded_valid[OF assms(1)] round2_recorded_valid[OF assms(2)] by simp_all
  from assms v have "returncode (procs (round2 w a b) ! a) \<noteq> None"
    "returncode (procs (round2 w a b) ! b) \<noteq> None"
    by (simp_all add: returncode_of_def length_round2)
  then have "mortal (procs (round2 w a b) ! a)" "mortal (procs (round2 w a b) ! b)"
    by (simp_all add: recorded_mortal)
  then have m: "mortal (procs w ! a)" "mortal (procs w ! b)" using v by (simp_all add: mortal_round2)
  have "trace (round2 w a b) = trace w @ concat (replicate (Suc 0) [Polled a, Polled b])"
    using v by (simp add: trace_round2)
  then show ?thesis
    using v m assms evolves_round2[of w a b] length_round2[of w a b]
    unfolding both_post_def by blast
qed

lemma both_post_step:
  assumes "both_post (round2 w a b) a b y"
  shows "both_post w a b y"
proof -
  from assms have v: "a < length (procs w)" "b < length (procs w)"
    by (simp_all add: both_post_def length_round2)
  from assms obtain k where
    "trace y = trace (round2 w a b) @ concat (replicate (Suc k) [Polled a, Polled b])"
    unfolding both_post_def by blast
  then have "trace y = trace w @ concat (replicate (Suc (Suc k)) [Polled a, Polled b])"
    using v by (simp add: trace_round2)
  moreover have "mortal (procs w ! a)" "mortal (procs w ! b)"
    using assms v by (simp_all add: both_post_def mortal_round2)
  moreover have "evolves w y"
  proof -
    from assms have "evolves (round2 w a b) y" by (simp add: both_post_def)
    with evolves_round2[of w a b] show ?thesis by (rule evolves_trans)
  qed
  moreover have "length (procs y) = length (procs w)"
    "returncode_of y a \<noteq> None" "returncode_of y b \<noteq> None"
    using assms by (simp_all add: both_post_def length_round2)
  ultimately show ?thesis using v unfolding both_post_def by blast
qed

lemma poll_until_both_unfold:
  "poll_until_both w a b =
     (if returncode_of (round2 w a b) a \<noteq> None \<and> returncode_of (round2 w a b) b \<noteq> None
      then Some (round2 w a b) else poll_until_both (round2 w a b) a b)"
  by (subst poll_until_both.simps) (simp add: round2_def split: prod.splits)

lemma poll_until_both_post:
  assumes "poll_until_both w0 a0 b0 = Some y0"
  shows "both_post w0 a0 b0 y0"
proof (rule poll_until_both.raw_induct[where P = both_post])
  show "poll_until_both w0 a0 b0 = Some y0" by fact
next
  fix f w a b y
  assume IH: "\<And>w a b y. f w a b = Some y \<Longrightarrow> both_post w a b y"
    and eq: "(case poll w a of (w1, ra) \<Rightarrow> case poll w1 b of (w2, rb) \<Rightarrow>
                if returncode_of w2 a \<noteq> None \<and> returncode_of w2 b \<noteq> None then Some w2
                else f w2 a b) = Some y"
  obtain w1 ra where p1: "poll w a = (w1, ra)" by (cases "poll w a")
  obtain w2 rb where p2: "poll w1 b = (w2, rb)" by (cases "poll w1 b")
  from p1 p2 have r: "round2 w a b = w2" by (simp add: round2_def)
  from eq have eq': "(if returncode_of (round2 w a b) a \<noteq> None \<and> returncode_of (round2 w a b) b \<noteq> None
      then Some (round2 w a b) else f (round2 w a b) a b) = Some y"
    unfolding r using p1 p2 by simp
  show "both_post w a b y"
  proof (cases "returncode_of (round2 w a b) a \<noteq> None \<and> returncode_of (round2 w a b) b \<noteq> None")
    case True
    with eq' have "y = round2 w a b" by simp
    then show ?thesis using both_post_exit[of w a b] True by simp
  next
    case False
    with eq' have "f (round2 w a b) a b = Some y" by auto
    then have "both_post (round2 w a b) a b y" by (rule IH)
    then show ?thesis by (rule both_post_step)
  qed
qed

lemma poll_until_both_returns:
  "a < length (procs w) \<Longrightarrow> b < length (procs w) \<Longrightarrow>
   dies_within N (procs w ! a) \<Longrightarrow> dies_within N (procs w ! b) \<Longrightarrow>
     \<exists>y. poll_until_both w a b = Some y"
proof (induction N arbitrary: w)
  case 0
  then show ?case using round2_dead_recorded[of a w b]
    by (subst poll_until_both_unfold) simp
next
  case (Suc N)
  show ?case
  proof (cases "returncode_of (round2 w a b) a \<noteq> None \<and> returncode_of (round2 w a b) b \<noteq> None")
    case True
    then show ?thesis by (subst poll_until_both_unfold) simp
  next
    case False
    have "dies_within (Suc (Suc N)) (procs w ! a)" "dies_within (Suc (Suc N)) (procs w ! b)"
      using Suc.prems(3,4) by (auto intro: dies_within_mono)
    then have "dies_within N (procs (round2 w a b) ! a)" "dies_within N (procs (round2 w a b) ! b)"
      using Suc.prems(1,2) by (simp_all add: dies_within_round2)
    moreover have "a < length (procs (round2 w a b))" "b < length (procs (round2 w a b))"
      using Suc.prems(1,2) by (simp_all add: length_round2)
    ultimately obtain y where "poll_until_both (round2 w a b) a b = Some y"
      using Suc.IH by blast
    then show ?thesis using False by (subst poll_until_both_unfold) auto
  qed
qed

lemma poll_until_both_iff:
  "(\<exists>y. poll_until_both w a b = Some y) \<longleftrightarrow>
     a < length (procs w) \<and> b < length (procs w) \<and> mortal (procs w ! a) \<and> mortal (procs w ! b)"
proof
  assume "\<exists>y. poll_until_both w a b = Some y"
  then show "a < length (procs w) \<and> b < length (procs w) \<and> mortal (procs w ! a) \<and> mortal (procs w ! b)"
    using poll_until_both_post[of w a b] by (auto simp: both_post_def)
next
  assume h: "a < length (procs w) \<and> b < length (procs w) \<and> mortal (procs w ! a) \<and> mortal (procs w ! b)"
  then obtain N M where "dies_within N (procs w ! a)" "dies_within M (procs w ! b)"
    by (auto simp: mortal_iff)
  then have "dies_within (max N M) (procs w ! a)" "dies_within (max N M) (procs w ! b)"
    by (auto intro: dies_within_mono)
  with h show "\<exists>y. poll_until_both w a b = Some y" using poll_until_both_returns by blast
qed

subsection \<open>Launching\<close>

lemma fresh_new: "fresh a life \<lparr>argv = a, pstate = Running life code, returncode = None\<rparr>"
  by (simp add: fresh_def settled_new mortal_new)

lemma fresh_tick: "fresh a life p \<Longrightarrow> fresh a life (tick_proc p)"
  using pstep_tick[of p] by (simp add: fresh_def mortal_tick pstep_def)

lemma fresh_recorded_not_running: "fresh a life p \<Longrightarrow> returncode p \<noteq> None \<Longrightarrow> \<not> is_running p"
  by (simp add: fresh_def settled_def)

lemma Popen_fresh:
  assumes "Popen env w a = Inr (w1, pid)"
  shows "pid = length (procs w) \<and> length (procs w1) = Suc (length (procs w)) \<and> evolves w w1 \<and>
         trace w1 = trace w @ [Spawned (length (procs w)) a] \<and>
         (\<forall>i < length (procs w). procs w1 ! i = tick_proc (procs w ! i)) \<and>
         (\<exists>life code. env (length (procs w)) a = Starts life code \<and>
            fresh a life (procs w1 ! length (procs w)))"
proof -
  from Popen_Inr[OF assms] obtain life code where
    p: "pid = length (procs w)" "trace w1 = trace w @ [Spawned pid a]"
       "env (length (procs w)) a = Starts life code"
       "procs w1 = map tick_proc (procs w) @ [\<lparr>argv = a, pstate = Running life code, returncode = None\<rparr>]"
    by blast
  have "fresh a life (procs w1 ! length (procs w))" using p(4) by (simp add: nth_append fresh_new)
  moreover have "\<forall>i < length (procs w). procs w1 ! i = tick_proc (procs w ! i)"
    using p(4) by (simp add: nth_append)
  ultimately show ?thesis using p evolves_Popen[OF assms] by auto
qed

lemma Popen_print_fresh:
  assumes "Popen env (py_print w s) a = Inr (w1, pid)"
  shows "pid = length (procs w) \<and> length (procs w1) = Suc (length (procs w)) \<and> evolves w w1 \<and>
         trace w1 = trace w @ [Printed s, Spawned (length (procs w)) a] \<and>
         (\<exists>life code. env (length (procs w)) a = Starts life code \<and>
            fresh a life (procs w1 ! length (procs w)))"
proof -
  have "evolves w w1" using evolves_print Popen_fresh[OF assms] by (blast intro: evolves_trans)
  then show ?thesis using Popen_fresh[OF assms] by (simp add: procs_print trace_print)
qed

lemma Popen_cases:
  "(\<exists>w1. Popen env w a = Inr (w1, length (procs w))) \<and> (\<exists>life code. env (length (procs w)) a = Starts life code)
   \<or> Popen env w a = Inl OSError \<and> env (length (procs w)) a = Fails"
  by (cases "env (length (procs w)) a") (auto simp: Popen_def Let_def procs_tick)

lemma evolves_length: "evolves w w' \<Longrightarrow> length (procs w) \<le> length (procs w')"
  by (simp add: evolves_def)

lemma evolves_argv: "evolves w w' \<Longrightarrow> i < length (procs w) \<Longrightarrow> argv (procs w' ! i) = argv (procs w ! i)"
  by (simp add: evolves_def pstep_def)

lemma evolves_settled:
  "evolves w w' \<Longrightarrow> i < length (procs w) \<Longrightarrow> settled (procs w ! i) \<Longrightarrow> settled (procs w' ! i)"
  by (simp add: evolves_def pstep_def)

lemma evolves_not_running:
  "evolves w w' \<Longrightarrow> i < length (procs w) \<Longrightarrow> \<not> is_running (procs w ! i) \<Longrightarrow>
     \<not> is_running (procs w' ! i)"
  by (simp add: evolves_def pstep_def)

lemma evolves_recorded:
  "evolves w w' \<Longrightarrow> returncode_of w i \<noteq> None \<Longrightarrow> returncode_of w' i = returncode_of w i"
  by (auto simp: evolves_def pstep_def returncode_of_def split: if_splits)

lemma recorded_settled_not_running:
  "returncode_of w i \<noteq> None \<Longrightarrow> settled (procs w ! i) \<Longrightarrow> \<not> is_running (procs w ! i)"
  by (auto simp: returncode_of_def settled_def split: if_splits)

subsection \<open>start\_usrp and start\_controller\<close>

lemma start_usrp_launch_Inr:
  assumes "start_usrp_launch env (w, c) = Inr (w1, c1)"
  shows "c1 = c\<lparr>usrp_control_args := capture_args c, usrp_proc := Some (length (procs w))\<rparr> \<and>
         length (procs w1) = Suc (length (procs w)) \<and> evolves w w1 \<and>
         trace w1 = trace w @ [Printed (''Running USRP...'' @ nl),
                               Spawned (length (procs w)) (capture_args c)] \<and>
         (\<exists>life code. env (length (procs w)) (capture_args c) = Starts life code \<and>
            fresh (capture_args c) life (procs w1 ! length (procs w)))"
proof -
  let ?w0 = "py_print w (''Running USRP...'' @ nl)"
  from assms obtain pid where
    p: "Popen env ?w0 (capture_args c) = Inr (w1, pid)"
    and c1: "c1 = c\<lparr>usrp_control_args := capture_args c, usrp_proc := Some pid\<rparr>"
    by (auto simp: start_usrp_launch_def Let_def split: sum.splits)
  from Popen_print_fresh[OF p] c1 show ?thesis by simp
qed

lemma start_usrp_launch_Inl:
  "start_usrp_launch env (w, c) = Inl e \<longleftrightarrow>
     e = OSError \<and> env (length (procs w)) (capture_args c) = Fails"
  using Popen_Inl[of env "py_print w (''Running USRP...'' @ nl)" "capture_args c" e]
  by (auto simp: start_usrp_launch_def Let_def procs_print split: sum.splits)

lemma start_controller_launch_Inr:
  assumes "start_controller_launch env (w, c) = Inr (w1, c1)"
  shows "c1 = c\<lparr>controller_proc := Some (length (procs w))\<rparr> \<and>
         length (procs w1) = Suc (length (procs w)) \<and> evolves w w1 \<and>
         trace w1 = trace w @ [Printed (''Running interference...'' @ nl),
                               Spawned (length (procs w)) (sg_controller_args c)] \<and>
         (\<exists>life code. env (length (procs w)) (sg_controller_args c) = Starts life code \<and>
            fresh (sg_controller_args c) life (procs w1 ! length (procs w)))"
proof -
  let ?w0 = "py_print w (''Running interference...'' @ nl)"
  from assms obtain pid where
    p: "Popen env ?w0 (sg_controller_args c) = Inr (w1, pid)"
    and c1: "c1 = c\<lparr>controller_proc := Some pid\<rparr>"
    by (auto simp: start_controller_launch_def Let_def split: sum.splits)
  from Popen_print_fresh[OF p] c1 show ?thesis by simp
qed

lemma start_controller_launch_Inl:
  "start_controller_launch env (w, c) = Inl e \<longleftrightarrow>
     e = OSError \<and> env (length (procs w)) (sg_controller_args c) = Fails"
  using Popen_Inl[of env "py_print w (''Running interference...'' @ nl)" "sg_controller_args c" e]
  by (auto simp: start_controller_launch_def Let_def procs_print split: sum.splits)

text \<open>What the wait for one fresh process gives, whichever loop does it.\<close>

lemma wait_fresh:
  assumes "loop_post w1 pid y" "fresh a life (procs w1 ! pid)"
  shows "life \<noteq> None \<and> length (procs y) = length (procs w1) \<and> evolves w1 y \<and>
         argv (procs y ! pid) = a \<and> returncode (procs y ! pid) \<noteq> None \<and>
         \<not> is_running (procs y ! pid) \<and>
         (\<exists>k. trace y = trace w1 @ replicate (Suc k) (Polled pid))"
proof -
  from assms(1) have v: "pid < length (procs w1)" and l: "length (procs y) = length (procs w1)"
    and e: "evolves w1 y" and r: "returncode_of y pid \<noteq> None" and m: "mortal (procs w1 ! pid)"
    and t: "\<exists>k. trace y = trace w1 @ replicate (Suc k) (Polled pid)"
    by (simp_all add: loop_post_def)
  from assms(2) m have "life \<noteq> None" by (simp add: fresh_def)
  moreover have "argv (procs y ! pid) = a" using evolves_argv[OF e v] assms(2) by (simp add: fresh_def)
  moreover have "settled (procs y ! pid)" using evolves_settled[OF e v] assms(2) by (simp add: fresh_def)
  then have "\<not> is_running (procs y ! pid)" using r by (rule recorded_settled_not_running[rotated])
  moreover have "returncode (procs y ! pid) \<noteq> None" using r by (simp add: returncode_of_def split: if_splits)
  ultimately show ?thesis using l e t by blast
qed

lemma start_usrp_Inr:
  assumes "start_usrp env (w, c) = Some (Inr (w', c'))"
  shows "c' = c\<lparr>usrp_control_args := capture_args c, usrp_proc := Some (length (procs w))\<rparr> \<and>
         length (procs w') = Suc (length (procs w)) \<and> evolves w w' \<and>
         argv (procs w' ! length (procs w)) = capture_args c \<and>
         returncode (procs w' ! length (procs w)) \<noteq> None \<and>
         \<not> is_running (procs w' ! length (procs w)) \<and>
         (\<exists>life code. env (length (procs w)) (capture_args c) = Starts (Some life) code) \<and>
         (\<exists>k. trace w' = trace w @ [Printed (''Running USRP...'' @ nl),
                                    Spawned (length (procs w)) (capture_args c)] @
                          replicate (Suc k) (Polled (length (procs w))) @
                          [Printed (''Done sensing medium'' @ nl)])"
proof -
  let ?n = "length (procs w)"
  from assms obtain w1 c1 where l: "start_usrp_launch env (w, c) = Inr (w1, c1)"
    by (auto simp: start_usrp_def split: sum.splits)
  from start_usrp_launch_Inr[OF l] obtain life code where
    c1: "c1 = c\<lparr>usrp_control_args := capture_args c, usrp_proc := Some ?n\<rparr>"
    and len: "length (procs w1) = Suc ?n" and e1: "evolves w w1"
    and t1: "trace w1 = trace w @ [Printed (''Running USRP...'' @ nl), Spawned ?n (capture_args c)]"
    and env: "env ?n (capture_args c) = Starts life code"
    and f: "fresh (capture_args c) life (procs w1 ! ?n)" by blast
  from assms l c1 obtain y where y: "poll_until_exit w1 ?n = Some y"
    and w': "w' = py_print y (''Done sensing medium'' @ nl)" and c': "c' = c1"
    by (auto simp: start_usrp_def split: option.splits)
  from wait_fresh[OF poll_until_exit_post[OF y] f] obtain k where
    k: "life \<noteq> None" "length (procs y) = length (procs w1)" "evolves w1 y"
       "argv (procs y ! ?n) = capture_args c" "returncode (procs y ! ?n) \<noteq> None"
       "\<not> is_running (procs y ! ?n)" "trace y = trace w1 @ replicate (Suc k) (Polled ?n)"
    by blast
  have "evolves w w'" using evolves_trans[OF e1 k(3)] by (simp add: w' evolves_def procs_print)
  moreover from k(1) env have "\<exists>life code. env ?n (capture_args c) = Starts (Some life) code" by auto
  moreover have "trace w' = trace w @ [Printed (''Running USRP...'' @ nl), Spawned ?n (capture_args c)] @
                          replicate (Suc k) (Polled ?n) @ [Printed (''Done sensing medium'' @ nl)]"
    using k(7) t1 by (simp add: w' trace_print)
  ultimately show ?thesis using c' c1 len k(2,4,5,6) by (simp add: w' procs_print)
qed

lemma start_usrp_returns:
  assumes "env (length (procs w)) (capture_args c) = Starts (Some n) code"
  shows "\<exists>s'. start_usrp env (w, c) = Some (Inr s')"
proof -
  let ?n = "length (procs w)"
  have "\<not> (\<exists>e. start_usrp_launch env (w, c) = Inl e)" using assms by (simp add: start_usrp_launch_Inl)
  then obtain w1 c1 where l: "start_usrp_launch env (w, c) = Inr (w1, c1)"
    by (cases "start_usrp_launch env (w, c)") auto
  from start_usrp_launch_Inr[OF l] assms have
    c1: "usrp_proc c1 = Some ?n" and len: "length (procs w1) = Suc ?n"
    and f: "fresh (capture_args c) (Some n) (procs w1 ! ?n)" by auto
  from f have "mortal (procs w1 ! ?n)" by (simp add: fresh_def)
  with len obtain y where "poll_until_exit w1 ?n = Some y"
    using poll_until_exit_iff[of w1 ?n] by auto
  with l c1 show ?thesis by (simp add: start_usrp_def)
qed

lemma start_usrp_blocks:
  assumes "env (length (procs w)) (capture_args c) = Starts None code"
  shows "start_usrp env (w, c) = None"
proof (cases "start_usrp env (w, c)")
  case None
  then show ?thesis .
next
  case (Some r)
  show ?thesis
  proof (cases r)
    case (Inl e)
    with Some have "start_usrp_launch env (w, c) = Inl e"
      using start_usrp_launch_Inr[of env w c]
      by (auto simp: start_usrp_def split: sum.splits option.splits)
    with assms show ?thesis by (simp add: start_usrp_launch_Inl)
  next
    case (Inr s')
    with Some start_usrp_Inr[of env w c "fst s'" "snd s'"] assms show ?thesis by simp
  qed
qed

lemma start_controller_Inr:
  assumes "start_controller env (w, c) args = Some (Inr (w', c'))"
  shows "c' = c\<lparr>controller_proc := Some (length (procs w))\<rparr> \<and>
         length (procs w') = Suc (length (procs w)) \<and> evolves w w' \<and>
         argv (procs w' ! length (procs w)) = sg_controller_args c \<and>
         returncode (procs w' ! length (procs w)) \<noteq> None \<and>
         \<not> is_running (procs w' ! length (procs w)) \<and>
         (\<exists>life code. env (length (procs w)) (sg_controller_args c) = Starts (Some life) code) \<and>
         (\<exists>k. trace w' = trace w @ [Printed (''Running interference...'' @ nl),
                                    Spawned (length (procs w)) (sg_controller_args c)] @
                          replicate (Suc k) (Polled (length (procs w))) @
                          [Printed (''Done injecting interference'' @ nl)])"
proof -
  let ?n = "length (procs w)"
  from assms obtain w1 c1 where l: "start_controller_launch env (w, c) = Inr (w1, c1)"
    by (auto simp: start_controller_def split: sum.splits)
  from start_controller_launch_Inr[OF l] obtain life code where
    c1: "c1 = c\<lparr>controller_proc := Some ?n\<rparr>"
    and len: "length (procs w1) = Suc ?n" and e1: "evolves w w1"
    and t1: "trace w1 = trace w @ [Printed (''Running interference...'' @ nl),
                                  Spawned ?n (sg_controller_args c)]"
    and env: "env ?n (sg_controller_args c) = Starts life code"
    and f: "fresh (sg_controller_args c) life (procs w1 ! ?n)" by blast
  from assms l c1 obtain y where y: "poll_until_exit w1 ?n = Some y"
    and w': "w' = py_print y (''Done injecting interference'' @ nl)" and c': "c' = c1"
    by (auto simp: start_controller_def split: option.splits)
  from wait_fresh[OF poll_until_exit_post[OF y] f] obtain k where
    k: "life \<noteq> None" "length (procs y) = length (procs w1)" "evolves w1 y"
       "argv (procs y ! ?n) = sg_controller_args c" "returncode (procs y ! ?n) \<noteq> None"
       "\<not> is_running (procs y ! ?n)" "trace y = trace w1 @ replicate (Suc k) (Polled ?n)"
    by blast
  have "evolves w w'" using evolves_trans[OF e1 k(3)] by (simp add: w' evolves_def procs_print)
  moreover from k(1) env have "\<exists>life code. env ?n (sg_controller_args c) = Starts (Some life) code"
    by auto
  moreover have "trace w' = trace w @ [Printed (''Running interference...'' @ nl),
        Spawned ?n (sg_controller_args c)] @
        replicate (Suc k) (Polled ?n) @ [Printed (''Done injecting interference'' @ nl)]"
    using k(7) t1 by (simp add: w' trace_print)
  ultimately show ?thesis using c' c1 len k(2,4,5,6) by (simp add: w' procs_print)
qed

lemma start_controller_returns:
  assumes "env (length (procs w)) (sg_controller_args c) = Starts (Some n) code"
  shows "\<exists>s'. start_controller env (w, c) args = Some (Inr s')"
proof -
  let ?n = "length (procs w)"
  have "\<not> (\<exists>e. start_controller_launch env (w, c) = Inl e)"
    using assms by (simp add: start_controller_launch_Inl)
  then obtain w1 c1 where l: "start_controller_launch env (w, c) = Inr (w1, c1)"
    by (cases "start_controller_launch env (w, c)") auto
  from start_controller_launch_Inr[OF l] assms have
    c1: "controller_proc c1 = Some ?n" and len: "length (procs w1) = Suc ?n"
    and f: "fresh (sg_controller_args c) (Some n) (procs w1 ! ?n)" by auto
  from f have "mortal (procs w1 ! ?n)" by (simp add: fresh_def)
  with len obtain y where "poll_until_exit w1 ?n = Some y"
    using poll_until_exit_iff[of w1 ?n] by auto
  with l c1 show ?thesis by (simp add: start_controller_def)
qed

lemma start_controller_blocks:
  assumes "env (length (procs w)) (sg_controller_args c) = Starts None code"
  shows "start_controller env (w, c) args = None"
proof (cases "start_controller env (w, c) args")
  case None
  then show ?thesis .
next
  case (Some r)
  show ?thesis
  proof (cases r)
    case (Inl e)
    with Some have "start_controller_launch env (w, c) = Inl e"
      using start_controller_launch_Inr[of env w c]
      by (auto simp: start_controller_def split: sum.splits option.splits)
    with assms show ?thesis by (simp add: start_controller_launch_Inl)
  next
    case (Inr s')
    with Some start_controller_Inr[of env w c args "fst s'" "snd s'"] assms show ?thesis by simp
  qed
qed

text \<open>
  Claim C9.  \<open>start_usrp\<close> and \<open>start_controller\<close> return only after the process they
  launched has a recorded exit status: on return the handle is the new process, that
  process has a return code and no longer runs.  They do wait for it: when the launched
  process never ends the call never returns, and when it ends the call returns.
\<close>

theorem start_single_returns_after_exit:
  "(start_usrp env (w, c) = Some (Inr (w', c')) \<longrightarrow>
      usrp_proc c' = Some (length (procs w)) \<and> length (procs w') = Suc (length (procs w)) \<and>
      argv (procs w' ! length (procs w)) = capture_args c \<and>
      returncode (procs w' ! length (procs w)) \<noteq> None \<and>
      \<not> is_running (procs w' ! length (procs w))) \<and>
   (start_controller env (w, c) args = Some (Inr (w', c')) \<longrightarrow>
      controller_proc c' = Some (length (procs w)) \<and> length (procs w') = Suc (length (procs w)) \<and>
      argv (procs w' ! length (procs w)) = sg_controller_args c \<and>
      returncode (procs w' ! length (procs w)) \<noteq> None \<and>
      \<not> is_running (procs w' ! length (procs w))) \<and>
   (env (length (procs w)) (capture_args c) = Starts None code \<longrightarrow>
      start_usrp env (w, c) = None) \<and>
   (env (length (procs w)) (sg_controller_args c) = Starts None code \<longrightarrow>
      start_controller env (w, c) args = None) \<and>
   (env (length (procs w)) (capture_args c) = Starts (Some n) code \<longrightarrow>
      (\<exists>s'. start_usrp env (w, c) = Some (Inr s'))) \<and>
   (env (length (procs w)) (sg_controller_args c) = Starts (Some n) code \<longrightarrow>
      (\<exists>s'. start_controller env (w, c) args = Some (Inr s')))"
proof -
  have "usrp_proc c' = Some (length (procs w)) \<and> length (procs w') = Suc (length (procs w)) \<and>
      argv (procs w' ! length (procs w)) = capture_args c \<and>
      returncode (procs w' ! length (procs w)) \<noteq> None \<and>
      \<not> is_running (procs w' ! length (procs w))"
    if "start_usrp env (w, c) = Some (Inr (w', c'))"
    using start_usrp_Inr[OF that] by simp
  moreover have "controller_proc c' = Some (length (procs w)) \<and>
      length (procs w') = Suc (length (procs w)) \<and>
      argv (procs w' ! length (procs w)) = sg_controller_args c \<and>
      returncode (procs w' ! length (procs w)) \<noteq> None \<and>
      \<not> is_running (procs w' ! length (procs w))"
    if "start_controller env (w, c) args = Some (Inr (w', c'))"
    using start_controller_Inr[OF that] by simp
  ultimately show ?thesis
    using start_usrp_blocks[of env w c code] start_controller_blocks[of env w c code args]
      start_usrp_returns[of env w c n code] start_controller_returns[of env w c n code args]
    by blast
qed

theorem start_single_returns_after_exit_witness:
  "(\<exists>w' c'. start_usrp ex_env (ex_world, ex_controller) = Some (Inr (w', c')) \<and>
      usrp_proc c' = Some 0 \<and> length (procs w') = 1 \<and>
      argv (procs w' ! 0) = [''python'', ''/home/u/utils/writeIQ.py'', [], ''0.5''] \<and>
      returncode (procs w' ! 0) \<noteq> None \<and> \<not> is_running (procs w' ! 0)) \<and>
   (\<exists>w' c'. start_controller ex_env (ex_world, ex_controller) () = Some (Inr (w', c')) \<and>
      controller_proc c' = Some 0 \<and> length (procs w') = 1 \<and>
      argv (procs w' ! 0) = [''python3'', ''/home/u/utils/ramp_control.py'', ''0.5''] \<and>
      returncode (procs w' ! 0) \<noteq> None \<and> \<not> is_running (procs w' ! 0)) \<and>
   start_usrp never_env (ex_world, ex_controller) = None \<and>
   start_controller never_env (ex_world, ex_controller) () = None \<and>
   map_option (map_sum id (\<lambda>(w, c). (map pstate (procs w), map returncode (procs w), usrp_proc c)))
     (start_usrp ex_env (ex_world, ex_controller)) = Some (Inr ([Exited 0], [Some 0], Some 0))"
proof -
  have l: "length (procs ex_world) = 0" by (simp add: ex_world_def)
  have a1: "capture_args ex_controller = [''python'', ''/home/u/utils/writeIQ.py'', [], ''0.5'']"
    by code_simp
  have a2: "sg_controller_args ex_controller = [''python3'', ''/home/u/utils/ramp_control.py'', ''0.5'']"
    by code_simp
  have e1: "ex_env (length (procs ex_world)) (capture_args ex_controller) = Starts (Some 2) 0"
    unfolding l a1 by code_simp
  have e2: "ex_env (length (procs ex_world)) (sg_controller_args ex_controller) = Starts (Some 2) 0"
    unfolding l a2 by code_simp
  have n1: "never_env (length (procs ex_world)) (capture_args ex_controller) = Starts None 0"
    by (simp add: never_env_def)
  have n2: "never_env (length (procs ex_world)) (sg_controller_args ex_controller) = Starts None 0"
    by (simp add: never_env_def)
  note t = start_single_returns_after_exit[where w = ex_world and c = ex_controller and args = "()"]
  note te = t[where env = ex_env]
  note tn = t[where env = never_env]
  note t1 = te[THEN conjunct1, rule_format]
  note t2 = te[THEN conjunct2, THEN conjunct1, rule_format]
  note t3 = tn[THEN conjunct2, THEN conjunct2, THEN conjunct1, rule_format]
  note t4 = tn[THEN conjunct2, THEN conjunct2, THEN conjunct2, THEN conjunct1, rule_format]
  note t5 = te[THEN conjunct2, THEN conjunct2, THEN conjunct2, THEN conjunct2, THEN conjunct1, rule_format]
  note t6 = te[THEN conjunct2, THEN conjunct2, THEN conjunct2, THEN conjunct2, THEN conjunct2, rule_format]
  from t5[OF e1] obtain w1 c1 where
    r1: "start_usrp ex_env (ex_world, ex_controller) = Some (Inr (w1, c1))" by auto
  from t6[OF e2] obtain w2 c2 where
    r2: "start_controller ex_env (ex_world, ex_controller) () = Some (Inr (w2, c2))" by auto
  have 1: "\<exists>w' c'. start_usrp ex_env (ex_world, ex_controller) = Some (Inr (w', c')) \<and>
      usrp_proc c' = Some 0 \<and> length (procs w') = 1 \<and>
      argv (procs w' ! 0) = [''python'', ''/home/u/utils/writeIQ.py'', [], ''0.5''] \<and>
      returncode (procs w' ! 0) \<noteq> None \<and> \<not> is_running (procs w' ! 0)"
    using t1[OF r1] r1 unfolding l a1 by (intro exI[of _ w1] exI[of _ c1]) simp
  have 2: "\<exists>w' c'. start_controller ex_env (ex_world, ex_controller) () = Some (Inr (w', c')) \<and>
      controller_proc c' = Some 0 \<and> length (procs w') = 1 \<and>
      argv (procs w' ! 0) = [''python3'', ''/home/u/utils/ramp_control.py'', ''0.5''] \<and>
      returncode (procs w' ! 0) \<noteq> None \<and> \<not> is_running (procs w' ! 0)"
    using t2[OF r2] r2 unfolding l a2 by (intro exI[of _ w2] exI[of _ c2]) simp
  have 4: "map_option (map_sum id (\<lambda>(w, c). (map pstate (procs w), map returncode (procs w), usrp_proc c)))
     (start_usrp ex_env (ex_world, ex_controller)) = Some (Inr ([Exited 0], [Some 0], Some 0))"
    by code_simp
  from 1 2 t3[OF n1] t4[OF n2] 4 show ?thesis by (intro conjI)
qed

subsection \<open>start\_usrp\_controller and start\_iperf\<close>

lemma Popen_second:
  assumes "Popen env w2 a = Inr (w1, pid)" "fresh b life (procs w2 ! i)" "i < length (procs w2)"
  shows "fresh b life (procs w1 ! i)"
  using Popen_fresh[OF assms(1)] assms(2,3) by (simp add: fresh_tick)

lemma start_usrp_controller_launch_Inr:
  assumes "start_usrp_controller_launch env (w, c) = Inr (w1, c1)"
  shows "c1 = c\<lparr>usrp_control_args := capture_args c, usrp_proc := Some (length (procs w)),
               controller_proc := Some (Suc (length (procs w)))\<rparr> \<and>
         length (procs w1) = Suc (Suc (length (procs w))) \<and> evolves w w1 \<and>
         trace w1 = trace w @ [Printed (''Running USRP with interference injected...'' @ nl),
                               Spawned (length (procs w)) (capture_args c),
                               Spawned (Suc (length (procs w))) (sg_controller_args c)] \<and>
         (\<exists>life code. env (length (procs w)) (capture_args c) = Starts life code \<and>
            fresh (capture_args c) life (procs w1 ! length (procs w))) \<and>
         (\<exists>life code. env (Suc (length (procs w))) (sg_controller_args c) = Starts life code \<and>
            fresh (sg_controller_args c) life (procs w1 ! Suc (length (procs w))))"
proof -
  let ?w0 = "py_print w (''Running USRP with interference injected...'' @ nl)"
  from assms obtain w2 upid cpid where
    p1: "Popen env ?w0 (capture_args c) = Inr (w2, upid)"
    and p2: "Popen env w2 (sg_controller_args c) = Inr (w1, cpid)"
    and c1: "c1 = c\<lparr>usrp_control_args := capture_args c, usrp_proc := Some upid,
                     controller_proc := Some cpid\<rparr>"
    by (auto simp: start_usrp_controller_launch_def Let_def split: sum.splits)
  note f1 = Popen_print_fresh[OF p1]
  note f2 = Popen_fresh[OF p2]
  from f1 obtain life code where
    a: "env (length (procs w)) (capture_args c) = Starts life code"
       "fresh (capture_args c) life (procs w2 ! length (procs w))" by blast
  have "fresh (capture_args c) life (procs w1 ! length (procs w))"
    using Popen_second[OF p2 a(2)] f1 by simp
  with a(1) have A: "\<exists>life code. env (length (procs w)) (capture_args c) = Starts life code \<and>
            fresh (capture_args c) life (procs w1 ! length (procs w))" by blast
  have "evolves w w1" using f1 f2 by (blast intro: evolves_trans)
  then show ?thesis using f1 f2 c1 A by simp
qed

lemma start_usrp_controller_launch_Inl:
  "start_usrp_controller_launch env (w, c) = Inl e \<longleftrightarrow>
     e = OSError \<and> (env (length (procs w)) (capture_args c) = Fails \<or>
                    env (Suc (length (procs w))) (sg_controller_args c) = Fails)"
proof -
  let ?w0 = "py_print w (''Running USRP with interference injected...'' @ nl)"
  show ?thesis
  proof (cases "Popen env ?w0 (capture_args c)")
    case (Inl e')
    then show ?thesis using Popen_Inl[of env ?w0 "capture_args c" e']
      by (auto simp: start_usrp_controller_launch_def Let_def procs_print)
  next
    case (Inr r)
    obtain w2 upid where r: "r = (w2, upid)" by (cases r)
    note f1 = Popen_print_fresh[OF Inr[unfolded r]]
    then have nf: "env (length (procs w)) (capture_args c) \<noteq> Fails" by auto
    show ?thesis using Inr r f1 nf Popen_Inl[of env w2 "sg_controller_args c" e]
      by (auto simp: start_usrp_controller_launch_def Let_def split: sum.splits)
  qed
qed

lemma start_iperf_launch_Inr:
  assumes "start_iperf_launch env (w, c) = Inr (w1, c1)"
  shows "c1 = c\<lparr>iperf_client_proc := Some (length (procs w)),
               iperf_server_proc := Some (Suc (length (procs w)))\<rparr> \<and>
         length (procs w1) = Suc (Suc (length (procs w))) \<and> evolves w w1 \<and>
         trace w1 = trace w @ [Printed (''Running iperf...'' @ nl),
                               Spawned (length (procs w)) (iperf_client_args c),
                               Spawned (Suc (length (procs w))) (iperf_server_args c)] \<and>
         (\<exists>life code. env (length (procs w)) (iperf_client_args c) = Starts life code \<and>
            fresh (iperf_client_args c) life (procs w1 ! length (procs w))) \<and>
         (\<exists>life code. env (Suc (length (procs w))) (iperf_server_args c) = Starts life code \<and>
            fresh (iperf_server_args c) life (procs w1 ! Suc (length (procs w))))"
proof -
  let ?w0 = "py_print w (''Running iperf...'' @ nl)"
  from assms obtain w2 cpid spid where
    p1: "Popen env ?w0 (iperf_client_args c) = Inr (w2, cpid)"
    and p2: "Popen env w2 (iperf_server_args c) = Inr (w1, spid)"
    and c1: "c1 = c\<lparr>iperf_client_proc := Some cpid, iperf_server_proc := Some spid\<rparr>"
    by (auto simp: start_iperf_launch_def Let_def split: sum.splits)
  note f1 = Popen_print_fresh[OF p1]
  note f2 = Popen_fresh[OF p2]
  from f1 obtain life code where
    a: "env (length (procs w)) (iperf_client_args c) = Starts life code"
       "fresh (iperf_client_args c) life (procs w2 ! length (procs w))" by blast
  have "fresh (iperf_client_args c) life (procs w1 ! length (procs w))"
    using Popen_second[OF p2 a(2)] f1 by simp
  with a(1) have A: "\<exists>life code. env (length (procs w)) (iperf_client_args c) = Starts life code \<and>
            fresh (iperf_client_args c) life (procs w1 ! length (procs w))" by blast
  have "evolves w w1" using f1 f2 by (blast intro: evolves_trans)
  then show ?thesis using f1 f2 c1 A by simp
qed

lemma start_iperf_launch_Inl:
  "start_iperf_launch env (w, c) = Inl e \<longleftrightarrow>
     e = OSError \<and> (env (length (procs w)) (iperf_client_args c) = Fails \<or>
                    env (Suc (length (procs w))) (iperf_server_args c) = Fails)"
proof -
  let ?w0 = "py_print w (''Running iperf...'' @ nl)"
  show ?thesis
  proof (cases "Popen env ?w0 (iperf_client_args c)")
    case (Inl e')
    then show ?thesis using Popen_Inl[of env ?w0 "iperf_client_args c" e']
      by (auto simp: start_iperf_launch_def Let_def procs_print)
  next
    case (Inr r)
    obtain w2 cpid where r: "r = (w2, cpid)" by (cases r)
    note f1 = Popen_print_fresh[OF Inr[unfolded r]]
    then have nf: "env (length (procs w)) (iperf_client_args c) \<noteq> Fails" by auto
    show ?thesis using Inr r f1 nf Popen_Inl[of env w2 "iperf_server_args c" e]
      by (auto simp: start_iperf_launch_def Let_def split: sum.splits)
  qed
qed

text \<open>What the wait for two fresh processes gives.\<close>

lemma wait_both_fresh:
  assumes "both_post w1 a b y" "fresh aa la (procs w1 ! a)" "fresh ab lb (procs w1 ! b)"
  shows "la \<noteq> None \<and> lb \<noteq> None \<and> length (procs y) = length (procs w1) \<and> evolves w1 y \<and>
         argv (procs y ! a) = aa \<and> returncode (procs y ! a) \<noteq> None \<and> \<not> is_running (procs y ! a) \<and>
         argv (procs y ! b) = ab \<and> returncode (procs y ! b) \<noteq> None \<and> \<not> is_running (procs y ! b) \<and>
         (\<exists>k. trace y = trace w1 @ concat (replicate (Suc k) [Polled a, Polled b]))"
proof -
  from assms(1) have va: "a < length (procs w1)" and vb: "b < length (procs w1)"
    and l: "length (procs y) = length (procs w1)"
    and e: "evolves w1 y" and ra: "returncode_of y a \<noteq> None" and rb: "returncode_of y b \<noteq> None"
    and ma: "mortal (procs w1 ! a)" and mb: "mortal (procs w1 ! b)"
    and t: "\<exists>k. trace y = trace w1 @ concat (replicate (Suc k) [Polled a, Polled b])"
    by (simp_all add: both_post_def)
  from assms(2,3) ma mb have "la \<noteq> None" "lb \<noteq> None" by (simp_all add: fresh_def)
  moreover have "argv (procs y ! a) = aa" "argv (procs y ! b) = ab"
    using evolves_argv[OF e va] evolves_argv[OF e vb] assms(2,3) by (simp_all add: fresh_def)
  moreover have "settled (procs y ! a)" "settled (procs y ! b)"
    using evolves_settled[OF e va] evolves_settled[OF e vb] assms(2,3) by (simp_all add: fresh_def)
  then have "\<not> is_running (procs y ! a)" "\<not> is_running (procs y ! b)"
    using ra rb by (simp_all add: recorded_settled_not_running)
  moreover have "returncode (procs y ! a) \<noteq> None" "returncode (procs y ! b) \<noteq> None"
    using ra rb by (simp_all add: returncode_of_def split: if_splits)
  ultimately show ?thesis using l e t by blast
qed

lemma start_usrp_controller_Inr:
  assumes "start_usrp_controller env (w, c) = Some (Inr (w', c'))"
  shows "c' = c\<lparr>usrp_control_args := capture_args c, usrp_proc := Some (length (procs w)),
               controller_proc := Some (Suc (length (procs w)))\<rparr> \<and>
         length (procs w') = Suc (Suc (length (procs w))) \<and> evolves w w' \<and>
         argv (procs w' ! length (procs w)) = capture_args c \<and>
         returncode (procs w' ! length (procs w)) \<noteq> None \<and>
         \<not> is_running (procs w' ! length (procs w)) \<and>
         argv (procs w' ! Suc (length (procs w))) = sg_controller_args c \<and>
         returncode (procs w' ! Suc (length (procs w))) \<noteq> None \<and>
         \<not> is_running (procs w' ! Suc (length (procs w))) \<and>
         (\<exists>life code. env (length (procs w)) (capture_args c) = Starts (Some life) code) \<and>
         (\<exists>life code. env (Suc (length (procs w))) (sg_controller_args c) = Starts (Some life) code) \<and>
         (\<exists>k. trace w' = trace w @ [Printed (''Running USRP with interference injected...'' @ nl),
                                    Spawned (length (procs w)) (capture_args c),
                                    Spawned (Suc (length (procs w))) (sg_controller_args c)] @
                          concat (replicate (Suc k)
                            [Polled (length (procs w)), Polled (Suc (length (procs w)))]) @
                          [Printed (''Done sensing with added interference'' @ nl)])"
proof -
  let ?n = "length (procs w)"
  from assms obtain w1 c1 where l: "start_usrp_controller_launch env (w, c) = Inr (w1, c1)"
    by (auto simp: start_usrp_controller_def split: sum.splits)
  from start_usrp_controller_launch_Inr[OF l] obtain la ca lb cb where
    c1: "c1 = c\<lparr>usrp_control_args := capture_args c, usrp_proc := Some ?n,
                 controller_proc := Some (Suc ?n)\<rparr>"
    and len: "length (procs w1) = Suc (Suc ?n)" and e1: "evolves w w1"
    and t1: "trace w1 = trace w @ [Printed (''Running USRP with interference injected...'' @ nl),
                               Spawned ?n (capture_args c), Spawned (Suc ?n) (sg_controller_args c)]"
    and enva: "env ?n (capture_args c) = Starts la ca"
    and fa: "fresh (capture_args c) la (procs w1 ! ?n)"
    and envb: "env (Suc ?n) (sg_controller_args c) = Starts lb cb"
    and fb: "fresh (sg_controller_args c) lb (procs w1 ! Suc ?n)" by blast
  from assms l c1 obtain y where y: "poll_until_both w1 ?n (Suc ?n) = Some y"
    and w': "w' = py_print y (''Done sensing with added interference'' @ nl)" and c': "c' = c1"
    by (auto simp: start_usrp_controller_def split: option.splits)
  from wait_both_fresh[OF poll_until_both_post[OF y] fa fb] obtain k where
    k: "la \<noteq> None" "lb \<noteq> None" "length (procs y) = length (procs w1)" "evolves w1 y"
       "argv (procs y ! ?n) = capture_args c" "returncode (procs y ! ?n) \<noteq> None"
       "\<not> is_running (procs y ! ?n)"
       "argv (procs y ! Suc ?n) = sg_controller_args c" "returncode (procs y ! Suc ?n) \<noteq> None"
       "\<not> is_running (procs y ! Suc ?n)"
       "trace y = trace w1 @ concat (replicate (Suc k) [Polled ?n, Polled (Suc ?n)])"
    by blast
  have "evolves w w'" using evolves_trans[OF e1 k(4)] by (simp add: w' evolves_def procs_print)
  moreover from k(1) enva have "\<exists>life code. env ?n (capture_args c) = Starts (Some life) code" by auto
  moreover from k(2) envb have
    "\<exists>life code. env (Suc ?n) (sg_controller_args c) = Starts (Some life) code" by auto
  moreover have "trace w' = trace w @ [Printed (''Running USRP with interference injected...'' @ nl),
        Spawned ?n (capture_args c), Spawned (Suc ?n) (sg_controller_args c)] @
        concat (replicate (Suc k) [Polled ?n, Polled (Suc ?n)]) @
        [Printed (''Done sensing with added interference'' @ nl)]"
    using k(11) t1 by (simp add: w' trace_print)
  ultimately show ?thesis using c' c1 len k(3,5,6,7,8,9,10) by (auto simp: w' procs_print)
qed

lemma start_iperf_Inr:
  assumes "start_iperf env (w, c) = Some (Inr (w', c'))"
  shows "c' = c\<lparr>iperf_client_proc := Some (length (procs w)),
               iperf_server_proc := Some (Suc (length (procs w)))\<rparr> \<and>
         length (procs w') = Suc (Suc (length (procs w))) \<and> evolves w w' \<and>
         argv (procs w' ! length (procs w)) = iperf_client_args c \<and>
         returncode (procs w' ! length (procs w)) \<noteq> None \<and>
         \<not> is_running (procs w' ! length (procs w)) \<and>
         argv (procs w' ! Suc (length (procs w))) = iperf_server_args c \<and>
         returncode (procs w' ! Suc (length (procs w))) \<noteq> None \<and>
         \<not> is_running (procs w' ! Suc (length (procs w))) \<and>
         (\<exists>life code. env (length (procs w)) (iperf_client_args c) = Starts (Some life) code) \<and>
         (\<exists>life code. env (Suc (length (procs w))) (iperf_server_args c) = Starts (Some life) code) \<and>
         (\<exists>k. trace w' = trace w @ [Printed (''Running iperf...'' @ nl),
                                    Spawned (length (procs w)) (iperf_client_args c),
                                    Spawned (Suc (length (procs w))) (iperf_server_args c)] @
                          concat (replicate (Suc k)
                            [Polled (length (procs w)), Polled (Suc (length (procs w)))]) @
                          [Printed (''Done running iperf'' @ nl)])"
proof -
  let ?n = "length (procs w)"
  from assms obtain w1 c1 where l: "start_iperf_launch env (w, c) = Inr (w1, c1)"
    by (auto simp: start_iperf_def split: sum.splits)
  from start_iperf_launch_Inr[OF l] obtain la ca lb cb where
    c1: "c1 = c\<lparr>iperf_client_proc := Some ?n, iperf_server_proc := Some (Suc ?n)\<rparr>"
    and len: "length (procs w1) = Suc (Suc ?n)" and e1: "evolves w w1"
    and t1: "trace w1 = trace w @ [Printed (''Running iperf...'' @ nl),
                               Spawned ?n (iperf_client_args c), Spawned (Suc ?n) (iperf_server_args c)]"
    and enva: "env ?n (iperf_client_args c) = Starts la ca"
    and fa: "fresh (iperf_client_args c) la (procs w1 ! ?n)"
    and envb: "env (Suc ?n) (iperf_server_args c) = Starts lb cb"
    and fb: "fresh (iperf_server_args c) lb (procs w1 ! Suc ?n)" by blast
  from assms l c1 obtain y where y: "poll_until_both w1 ?n (Suc ?n) = Some y"
    and w': "w' = py_print y (''Done running iperf'' @ nl)" and c': "c' = c1"
    by (auto simp: start_iperf_def split: option.splits)
  from wait_both_fresh[OF poll_until_both_post[OF y] fa fb] obtain k where
    k: "la \<noteq> None" "lb \<noteq> None" "length (procs y) = length (procs w1)" "evolves w1 y"
       "argv (procs y ! ?n) = iperf_client_args c" "returncode (procs y ! ?n) \<noteq> None"
       "\<not> is_running (procs y ! ?n)"
       "argv (procs y ! Suc ?n) = iperf_server_args c" "returncode (procs y ! Suc ?n) \<noteq> None"
       "\<not> is_running (procs y ! Suc ?n)"
       "trace y = trace w1 @ concat (replicate (Suc k) [Polled ?n, Polled (Suc ?n)])"
    by blast
  have "evolves w w'" using evolves_trans[OF e1 k(4)] by (simp add: w' evolves_def procs_print)
  moreover from k(1) enva have "\<exists>life code. env ?n (iperf_client_args c) = Starts (Some life) code"
    by auto
  moreover from k(2) envb have
    "\<exists>life code. env (Suc ?n) (iperf_server_args c) = Starts (Some life) code" by auto
  moreover have "trace w' = trace w @ [Printed (''Running iperf...'' @ nl),
        Spawned ?n (iperf_client_args c), Spawned (Suc ?n) (iperf_server_args c)] @
        concat (replicate (Suc k) [Polled ?n, Polled (Suc ?n)]) @
        [Printed (''Done running iperf'' @ nl)]"
    using k(11) t1 by (simp add: w' trace_print)
  ultimately show ?thesis using c' c1 len k(3,5,6,7,8,9,10) by (auto simp: w' procs_print)
qed

lemma start_usrp_controller_returns:
  assumes "env (length (procs w)) (capture_args c) = Starts (Some m1) code1"
    and "env (Suc (length (procs w))) (sg_controller_args c) = Starts (Some m2) code2"
  shows "\<exists>s'. start_usrp_controller env (w, c) = Some (Inr s')"
proof -
  let ?n = "length (procs w)"
  have "\<not> (\<exists>e. start_usrp_controller_launch env (w, c) = Inl e)"
    using assms by (simp add: start_usrp_controller_launch_Inl)
  then obtain w1 c1 where l: "start_usrp_controller_launch env (w, c) = Inr (w1, c1)"
    by (cases "start_usrp_controller_launch env (w, c)") auto
  from start_usrp_controller_launch_Inr[OF l] assms have
    c1: "usrp_proc c1 = Some ?n" "controller_proc c1 = Some (Suc ?n)"
    and len: "length (procs w1) = Suc (Suc ?n)"
    and f: "fresh (capture_args c) (Some m1) (procs w1 ! ?n)"
           "fresh (sg_controller_args c) (Some m2) (procs w1 ! Suc ?n)" by auto
  from f have "mortal (procs w1 ! ?n)" "mortal (procs w1 ! Suc ?n)" by (simp_all add: fresh_def)
  with len obtain y where "poll_until_both w1 ?n (Suc ?n) = Some y"
    using poll_until_both_iff[of w1 ?n "Suc ?n"] by auto
  with l c1 show ?thesis by (simp add: start_usrp_controller_def)
qed

lemma start_usrp_controller_blocks:
  assumes "env (length (procs w)) (capture_args c) = Starts la code1"
    and "env (Suc (length (procs w))) (sg_controller_args c) = Starts lb code2"
    and "la = None \<or> lb = None"
  shows "start_usrp_controller env (w, c) = None"
proof (cases "start_usrp_controller env (w, c)")
  case None
  then show ?thesis .
next
  case (Some r)
  show ?thesis
  proof (cases r)
    case (Inl e)
    with Some have "start_usrp_controller_launch env (w, c) = Inl e"
      using start_usrp_controller_launch_Inr[of env w c]
      by (auto simp: start_usrp_controller_def split: sum.splits option.splits)
    with assms show ?thesis by (simp add: start_usrp_controller_launch_Inl)
  next
    case (Inr s')
    with Some start_usrp_controller_Inr[of env w c "fst s'" "snd s'"] assms show ?thesis by auto
  qed
qed

lemma start_iperf_returns:
  assumes "env (length (procs w)) (iperf_client_args c) = Starts (Some m1) code1"
    and "env (Suc (length (procs w))) (iperf_server_args c) = Starts (Some m2) code2"
  shows "\<exists>s'. start_iperf env (w, c) = Some (Inr s')"
proof -
  let ?n = "length (procs w)"
  have "\<not> (\<exists>e. start_iperf_launch env (w, c) = Inl e)"
    using assms by (simp add: start_iperf_launch_Inl)
  then obtain w1 c1 where l: "start_iperf_launch env (w, c) = Inr (w1, c1)"
    by (cases "start_iperf_launch env (w, c)") auto
  from start_iperf_launch_Inr[OF l] assms have
    c1: "iperf_client_proc c1 = Some ?n" "iperf_server_proc c1 = Some (Suc ?n)"
    and len: "length (procs w1) = Suc (Suc ?n)"
    and f: "fresh (iperf_client_args c) (Some m1) (procs w1 ! ?n)"
           "fresh (iperf_server_args c) (Some m2) (procs w1 ! Suc ?n)" by auto
  from f have "mortal (procs w1 ! ?n)" "mortal (procs w1 ! Suc ?n)" by (simp_all add: fresh_def)
  with len obtain y where "poll_until_both w1 ?n (Suc ?n) = Some y"
    using poll_until_both_iff[of w1 ?n "Suc ?n"] by auto
  with l c1 show ?thesis by (simp add: start_iperf_def)
qed

lemma start_iperf_blocks:
  assumes "env (length (procs w)) (iperf_client_args c) = Starts la code1"
    and "env (Suc (length (procs w))) (iperf_server_args c) = Starts lb code2"
    and "la = None \<or> lb = None"
  shows "start_iperf env (w, c) = None"
proof (cases "start_iperf env (w, c)")
  case None
  then show ?thesis .
next
  case (Some r)
  show ?thesis
  proof (cases r)
    case (Inl e)
    with Some have "start_iperf_launch env (w, c) = Inl e"
      using start_iperf_launch_Inr[of env w c]
      by (auto simp: start_iperf_def split: sum.splits option.splits)
    with assms show ?thesis by (simp add: start_iperf_launch_Inl)
  next
    case (Inr s')
    with Some start_iperf_Inr[of env w c "fst s'" "snd s'"] assms show ?thesis by auto
  qed
qed

text \<open>
  Claim C2.  \<open>start_usrp_controller\<close> and \<open>start_iperf\<close> return only when both of the
  processes they launched have a recorded exit status: on return both handles are the new
  processes and both return codes are present.  The barrier is conjunctive: once both
  launches have succeeded, the call returns exactly when both processes end, and never
  returns when one of them never ends.
\<close>

theorem start_joint_returns_after_both:
  "(start_usrp_controller env (w, c) = Some (Inr (w', c')) \<longrightarrow>
      usrp_proc c' = Some (length (procs w)) \<and> controller_proc c' = Some (Suc (length (procs w))) \<and>
      length (procs w') = Suc (Suc (length (procs w))) \<and>
      returncode (procs w' ! length (procs w)) \<noteq> None \<and>
      returncode (procs w' ! Suc (length (procs w))) \<noteq> None) \<and>
   (start_iperf env (w, c) = Some (Inr (w', c')) \<longrightarrow>
      iperf_client_proc c' = Some (length (procs w)) \<and>
      iperf_server_proc c' = Some (Suc (length (procs w))) \<and>
      length (procs w') = Suc (Suc (length (procs w))) \<and>
      returncode (procs w' ! length (procs w)) \<noteq> None \<and>
      returncode (procs w' ! Suc (length (procs w))) \<noteq> None) \<and>
   (env (length (procs w)) (capture_args c) = Starts la code1 \<longrightarrow>
    env (Suc (length (procs w))) (sg_controller_args c) = Starts lb code2 \<longrightarrow>
      (start_usrp_controller env (w, c) = None) = (la = None \<or> lb = None) \<and>
      (\<exists>s'. start_usrp_controller env (w, c) = Some (Inr s')) = (la \<noteq> None \<and> lb \<noteq> None)) \<and>
   (env (length (procs w)) (iperf_client_args c) = Starts la code1 \<longrightarrow>
    env (Suc (length (procs w))) (iperf_server_args c) = Starts lb code2 \<longrightarrow>
      (start_iperf env (w, c) = None) = (la = None \<or> lb = None) \<and>
      (\<exists>s'. start_iperf env (w, c) = Some (Inr s')) = (la \<noteq> None \<and> lb \<noteq> None))"
proof -
  have 1: "usrp_proc c' = Some (length (procs w)) \<and> controller_proc c' = Some (Suc (length (procs w))) \<and>
      length (procs w') = Suc (Suc (length (procs w))) \<and>
      returncode (procs w' ! length (procs w)) \<noteq> None \<and>
      returncode (procs w' ! Suc (length (procs w))) \<noteq> None"
    if "start_usrp_controller env (w, c) = Some (Inr (w', c'))"
    using start_usrp_controller_Inr[OF that] by simp
  have 2: "iperf_client_proc c' = Some (length (procs w)) \<and>
      iperf_server_proc c' = Some (Suc (length (procs w))) \<and>
      length (procs w') = Suc (Suc (length (procs w))) \<and>
      returncode (procs w' ! length (procs w)) \<noteq> None \<and>
      returncode (procs w' ! Suc (length (procs w))) \<noteq> None"
    if "start_iperf env (w, c) = Some (Inr (w', c'))"
    using start_iperf_Inr[OF that] by simp
  have 3: "(start_usrp_controller env (w, c) = None) = (la = None \<or> lb = None) \<and>
      (\<exists>s'. start_usrp_controller env (w, c) = Some (Inr s')) = (la \<noteq> None \<and> lb \<noteq> None)"
    if a: "env (length (procs w)) (capture_args c) = Starts la code1"
      and b: "env (Suc (length (procs w))) (sg_controller_args c) = Starts lb code2"
  proof (cases "la = None \<or> lb = None")
    case True
    from start_usrp_controller_blocks[OF a b True] True show ?thesis by simp
  next
    case False
    then obtain m1 m2 where "la = Some m1" "lb = Some m2" by auto
    with start_usrp_controller_returns[of env w c m1 code1 m2 code2] a b False
    show ?thesis by auto
  qed
  have 4: "(start_iperf env (w, c) = None) = (la = None \<or> lb = None) \<and>
      (\<exists>s'. start_iperf env (w, c) = Some (Inr s')) = (la \<noteq> None \<and> lb \<noteq> None)"
    if a: "env (length (procs w)) (iperf_client_args c) = Starts la code1"
      and b: "env (Suc (length (procs w))) (iperf_server_args c) = Starts lb code2"
  proof (cases "la = None \<or> lb = None")
    case True
    from start_iperf_blocks[OF a b True] True show ?thesis by simp
  next
    case False
    then obtain m1 m2 where "la = Some m1" "lb = Some m2" by auto
    with start_iperf_returns[of env w c m1 code1 m2 code2] a b False
    show ?thesis by auto
  qed
  from 1 2 3 4 show ?thesis by blast
qed

theorem start_joint_returns_after_both_witness:
  "(\<exists>w' c'. start_usrp_controller ex_env (ex_world, ex_controller) = Some (Inr (w', c')) \<and>
      usrp_proc c' = Some 0 \<and> controller_proc c' = Some 1 \<and> length (procs w') = 2 \<and>
      returncode (procs w' ! 0) \<noteq> None \<and> returncode (procs w' ! 1) \<noteq> None) \<and>
   (\<exists>w' c'. start_iperf quick_env (ex_world, ex_controller) = Some (Inr (w', c')) \<and>
      iperf_client_proc c' = Some 0 \<and> iperf_server_proc c' = Some 1 \<and> length (procs w') = 2 \<and>
      returncode (procs w' ! 0) \<noteq> None \<and> returncode (procs w' ! 1) \<noteq> None) \<and>
   start_iperf ex_env (ex_world, ex_controller) = None \<and>
   start_usrp_controller never_env (ex_world, ex_controller) = None \<and>
   map_option (map_sum id (\<lambda>(w, c). (map pstate (procs w), map returncode (procs w))))
     (start_usrp_controller ex_env (ex_world, ex_controller)) =
       Some (Inr ([Exited 0, Exited 0], [Some 0, Some 0])) \<and>
   map_option (map_sum id (\<lambda>(w, c). (map pstate (procs w), map returncode (procs w))))
     (start_iperf quick_env (ex_world, ex_controller)) =
       Some (Inr ([Exited 0, Exited 1], [Some 0, Some 1]))"
proof -
  have l: "length (procs ex_world) = 0" by (simp add: ex_world_def)
  have a1: "capture_args ex_controller = [''python'', ''/home/u/utils/writeIQ.py'', [], ''0.5'']"
    by code_simp
  have a2: "sg_controller_args ex_controller = [''python3'', ''/home/u/utils/ramp_control.py'', ''0.5'']"
    by code_simp
  have a3: "iperf_client_args ex_controller =
    [''iperf'', ''-c'', ''None'', ''-u'', ''-bNoneM'', ''-S'', ''None'', ''-t10000000000'']"
    by code_simp
  have a4: "iperf_server_args ex_controller = [''iperf'', ''-s'', ''-u'', ''-t100000000000000'']"
    by code_simp
  have e1: "ex_env (length (procs ex_world)) (capture_args ex_controller) = Starts (Some 2) 0"
    unfolding l a1 by code_simp
  have e2: "ex_env (Suc (length (procs ex_world))) (sg_controller_args ex_controller) = Starts (Some 3) 0"
    unfolding l a2 by code_simp
  have e3: "ex_env (length (procs ex_world)) (iperf_client_args ex_controller) = Starts None 0"
    unfolding l a3 by code_simp
  have e4: "ex_env (Suc (length (procs ex_world))) (iperf_server_args ex_controller) = Starts None 0"
    unfolding l a4 by code_simp
  have q1: "quick_env (length (procs ex_world)) (iperf_client_args ex_controller) = Starts (Some 0) 0"
    unfolding l by (simp add: quick_env_def)
  have q2: "quick_env (Suc (length (procs ex_world))) (iperf_server_args ex_controller) = Starts (Some 1) 1"
    unfolding l by (simp add: quick_env_def)
  have n1: "never_env (length (procs ex_world)) (capture_args ex_controller) = Starts None 0"
    by (simp add: never_env_def)
  have n2: "never_env (Suc (length (procs ex_world))) (sg_controller_args ex_controller) = Starts None 0"
    by (simp add: never_env_def)
  note t = start_joint_returns_after_both[where w = ex_world and c = ex_controller]
  note te = t[where env = ex_env]
  note tq = t[where env = quick_env]
  note tn = t[where env = never_env]
  note te1 = te[THEN conjunct1, rule_format]
  note tq2 = tq[THEN conjunct2, THEN conjunct1, rule_format]
  note te3 = te[THEN conjunct2, THEN conjunct2, THEN conjunct1, rule_format, OF e1 e2]
  note tn3 = tn[THEN conjunct2, THEN conjunct2, THEN conjunct1, rule_format, OF n1 n2]
  note te4 = te[THEN conjunct2, THEN conjunct2, THEN conjunct2, rule_format, OF e3 e4]
  note tq4 = tq[THEN conjunct2, THEN conjunct2, THEN conjunct2, rule_format, OF q1 q2]
  from te3 obtain w1 c1 where
    r1: "start_usrp_controller ex_env (ex_world, ex_controller) = Some (Inr (w1, c1))" by auto
  from tq4 obtain w2 c2 where
    r2: "start_iperf quick_env (ex_world, ex_controller) = Some (Inr (w2, c2))" by auto
  have 1: "\<exists>w' c'. start_usrp_controller ex_env (ex_world, ex_controller) = Some (Inr (w', c')) \<and>
      usrp_proc c' = Some 0 \<and> controller_proc c' = Some 1 \<and> length (procs w') = 2 \<and>
      returncode (procs w' ! 0) \<noteq> None \<and> returncode (procs w' ! 1) \<noteq> None"
    using te1[OF r1] r1 unfolding l by (intro exI[of _ w1] exI[of _ c1]) simp
  have 2: "\<exists>w' c'. start_iperf quick_env (ex_world, ex_controller) = Some (Inr (w', c')) \<and>
      iperf_client_proc c' = Some 0 \<and> iperf_server_proc c' = Some 1 \<and> length (procs w') = 2 \<and>
      returncode (procs w' ! 0) \<noteq> None \<and> returncode (procs w' ! 1) \<noteq> None"
    using tq2[OF r2] r2 unfolding l by (intro exI[of _ w2] exI[of _ c2]) simp
  have 3: "start_iperf ex_env (ex_world, ex_controller) = None" using te4 by simp
  have 4: "start_usrp_controller never_env (ex_world, ex_controller) = None" using tn3 by simp
  have 5: "map_option (map_sum id (\<lambda>(w, c). (map pstate (procs w), map returncode (procs w))))
     (start_usrp_controller ex_env (ex_world, ex_controller)) =
       Some (Inr ([Exited 0, Exited 0], [Some 0, Some 0]))" by code_simp
  have 6: "map_option (map_sum id (\<lambda>(w, c). (map pstate (procs w), map returncode (procs w))))
     (start_iperf quick_env (ex_world, ex_controller)) =
       Some (Inr ([Exited 0, Exited 1], [Some 0, Some 1]))" by code_simp
  from 1 2 3 4 5 6 show ?thesis by (intro conjI)
qed

subsection \<open>start\_usrp\_iperf\<close>

lemma capture_args_procs [simp]:
  "capture_args (c\<lparr>iperf_client_proc := x\<rparr>) = capture_args c"
  "capture_args (c\<lparr>iperf_server_proc := y\<rparr>) = capture_args c"
  by (simp_all add: capture_args_def)

lemma start_usrp_iperf_launch_client:
  assumes "start_usrp_iperf_launch env (w, c) = Inr (w1, c1)" "truthy (iperf_client_addr c)"
  shows "c1 = c\<lparr>iperf_client_proc := Some (length (procs w)),
               iperf_server_proc := Some (Suc (length (procs w))),
               usrp_control_args := capture_args c,
               usrp_proc := Some (Suc (Suc (length (procs w))))\<rparr> \<and>
         length (procs w1) = Suc (Suc (Suc (length (procs w)))) \<and> evolves w w1 \<and>
         trace w1 = trace w @ [Printed (''Running USRP with interference injected...'' @ nl),
                               Spawned (length (procs w)) (iperf_client_args c),
                               Spawned (Suc (length (procs w))) (iperf_server_args c),
                               Spawned (Suc (Suc (length (procs w)))) (capture_args c)] \<and>
         (\<exists>life code. env (length (procs w)) (iperf_client_args c) = Starts life code \<and>
            fresh (iperf_client_args c) life (procs w1 ! length (procs w))) \<and>
         (\<exists>life code. env (Suc (length (procs w))) (iperf_server_args c) = Starts life code \<and>
            fresh (iperf_server_args c) life (procs w1 ! Suc (length (procs w)))) \<and>
         (\<exists>life code. env (Suc (Suc (length (procs w)))) (capture_args c) = Starts life code \<and>
            fresh (capture_args c) life (procs w1 ! Suc (Suc (length (procs w)))))"
proof -
  let ?w0 = "py_print w (''Running USRP with interference injected...'' @ nl)"
  from assms obtain wa wb cpid spid upid where
    p1: "Popen env ?w0 (iperf_client_args c) = Inr (wa, cpid)"
    and p2: "Popen env wa (iperf_server_args c) = Inr (wb, spid)"
    and p3: "Popen env wb (capture_args c) = Inr (w1, upid)"
    and c1: "c1 = c\<lparr>iperf_client_proc := Some cpid, iperf_server_proc := Some spid,
                     usrp_control_args := capture_args c, usrp_proc := Some upid\<rparr>"
    by (auto simp: start_usrp_iperf_launch_def Let_def split: sum.splits)
  note f1 = Popen_print_fresh[OF p1]
  note f2 = Popen_fresh[OF p2]
  note f3 = Popen_fresh[OF p3]
  from f1 obtain l1 k1 where
    a: "env (length (procs w)) (iperf_client_args c) = Starts l1 k1"
       "fresh (iperf_client_args c) l1 (procs wa ! length (procs w))" by blast
  from f2 f1 obtain l2 k2 where
    b: "env (Suc (length (procs w))) (iperf_server_args c) = Starts l2 k2"
       "fresh (iperf_server_args c) l2 (procs wb ! Suc (length (procs w)))" by auto
  have "fresh (iperf_client_args c) l1 (procs wb ! length (procs w))"
    using Popen_second[OF p2 a(2)] f1 by simp
  then have "fresh (iperf_client_args c) l1 (procs w1 ! length (procs w))"
    using Popen_second[OF p3] f1 f2 by simp
  with a(1) have A: "\<exists>life code. env (length (procs w)) (iperf_client_args c) = Starts life code \<and>
            fresh (iperf_client_args c) life (procs w1 ! length (procs w))" by blast
  have "fresh (iperf_server_args c) l2 (procs w1 ! Suc (length (procs w)))"
    using Popen_second[OF p3 b(2)] f1 f2 by simp
  with b(1) have B: "\<exists>life code. env (Suc (length (procs w))) (iperf_server_args c) = Starts life code \<and>
            fresh (iperf_server_args c) life (procs w1 ! Suc (length (procs w)))" by blast
  have "evolves w w1" using f1 f2 f3 by (blast intro: evolves_trans)
  then show ?thesis using f1 f2 f3 c1 A B by simp
qed

lemma start_usrp_iperf_launch_no_client:
  assumes "start_usrp_iperf_launch env (w, c) = Inr (w1, c1)" "\<not> truthy (iperf_client_addr c)"
  shows "c1 = c\<lparr>iperf_server_proc := Some (length (procs w)),
               usrp_control_args := capture_args c,
               usrp_proc := Some (Suc (length (procs w)))\<rparr> \<and>
         length (procs w1) = Suc (Suc (length (procs w))) \<and> evolves w w1 \<and>
         trace w1 = trace w @ [Printed (''Running USRP with interference injected...'' @ nl),
                               Spawned (length (procs w)) (iperf_server_args c),
                               Spawned (Suc (length (procs w))) (capture_args c)] \<and>
         (\<exists>life code. env (length (procs w)) (iperf_server_args c) = Starts life code \<and>
            fresh (iperf_server_args c) life (procs w1 ! length (procs w))) \<and>
         (\<exists>life code. env (Suc (length (procs w))) (capture_args c) = Starts life code \<and>
            fresh (capture_args c) life (procs w1 ! Suc (length (procs w))))"
proof -
  let ?w0 = "py_print w (''Running USRP with interference injected...'' @ nl)"
  from assms obtain wb spid upid where
    p2: "Popen env ?w0 (iperf_server_args c) = Inr (wb, spid)"
    and p3: "Popen env wb (capture_args c) = Inr (w1, upid)"
    and c1: "c1 = c\<lparr>iperf_server_proc := Some spid,
                     usrp_control_args := capture_args c, usrp_proc := Some upid\<rparr>"
    by (auto simp: start_usrp_iperf_launch_def Let_def split: sum.splits)
  note f2 = Popen_print_fresh[OF p2]
  note f3 = Popen_fresh[OF p3]
  from f2 obtain l2 k2 where
    b: "env (length (procs w)) (iperf_server_args c) = Starts l2 k2"
       "fresh (iperf_server_args c) l2 (procs wb ! length (procs w))" by auto
  have "fresh (iperf_server_args c) l2 (procs w1 ! length (procs w))"
    using Popen_second[OF p3 b(2)] f2 by simp
  with b(1) have B: "\<exists>life code. env (length (procs w)) (iperf_server_args c) = Starts life code \<and>
            fresh (iperf_server_args c) life (procs w1 ! length (procs w))" by blast
  have "evolves w w1" using f2 f3 by (blast intro: evolves_trans)
  then show ?thesis using f2 f3 c1 B by simp
qed

lemma start_usrp_iperf_launch_Inl:
  "start_usrp_iperf_launch env (w, c) = Inl e \<longleftrightarrow>
     e = OSError \<and>
     (truthy (iperf_client_addr c) \<and> env (length (procs w)) (iperf_client_args c) = Fails \<or>
      env (server_pid w c) (iperf_server_args c) = Fails \<or>
      env (Suc (server_pid w c)) (capture_args c) = Fails)"
  by (cases "truthy (iperf_client_addr c)")
     (auto simp: start_usrp_iperf_launch_def Popen_def Let_def procs_tick procs_print tick_def
        py_print_def server_pid_def split: launch.splits)

lemma trace_kill: "pid < length (procs w) \<Longrightarrow> trace (kill w pid) = trace w @ [KillCalled pid]"
  by (simp add: kill_valid)

lemma start_usrp_iperf_teardown_Inr:
  assumes "iperf_server_proc c = Some s" "s < length (procs y)" "settled (procs y ! s)"
    and "truthy (iperf_client_addr c) \<longrightarrow>
           iperf_client_proc c = Some n \<and> n < length (procs y) \<and> settled (procs y ! n)"
  shows "\<exists>w'. start_usrp_iperf_teardown (y, c) = Inr (w', c) \<and>
           length (procs w') = length (procs y) \<and> evolves y w' \<and>
           \<not> is_running (procs w' ! s) \<and>
           (truthy (iperf_client_addr c) \<longrightarrow> \<not> is_running (procs w' ! n)) \<and>
           trace w' = trace y @ (if truthy (iperf_client_addr c) then [KillCalled n] else []) @
                      [KillCalled s, Printed (''Done sensing with iperf'' @ nl)]"
proof -
  define y2 where "y2 = (if truthy (iperf_client_addr c) then kill y n else y)"
  define w' where "w' = py_print (kill y2 s) (''Done sensing with iperf'' @ nl)"
  have td: "start_usrp_iperf_teardown (y, c) = Inr (w', c)"
    using assms(1,4) by (simp add: start_usrp_iperf_teardown_def y2_def w'_def)
  have l2: "length (procs y2) = length (procs y)" by (simp add: y2_def length_kill)
  have e2: "evolves y y2" by (simp add: y2_def evolves_kill evolves_refl)
  have t2: "trace y2 = trace y @ (if truthy (iperf_client_addr c) then [KillCalled n] else [])"
    using assms(4) by (simp add: y2_def trace_kill)
  have n2: "\<not> is_running (procs y2 ! n)" if "truthy (iperf_client_addr c)"
    using that assms(4) by (simp add: y2_def kill_not_running)
  have s2: "settled (procs y2 ! s)" using evolves_settled[OF e2 assms(2,3)] .
  have e3: "evolves y2 (kill y2 s)" by (rule evolves_kill)
  have "\<not> is_running (procs (kill y2 s) ! s)" using assms(2) l2 s2 by (simp add: kill_not_running)
  moreover have "\<not> is_running (procs (kill y2 s) ! n)" if "truthy (iperf_client_addr c)"
    using evolves_not_running[OF e3 _ n2[OF that]] that assms(4) l2 by simp
  moreover have "evolves y (kill y2 s)" using e2 e3 by (rule evolves_trans)
  moreover have "trace (kill y2 s) = trace y @ (if truthy (iperf_client_addr c) then [KillCalled n] else []) @
                      [KillCalled s]" using assms(2) l2 t2 by (simp add: trace_kill)
  ultimately show ?thesis using td l2
    by (intro exI[of _ w']) (simp add: w'_def procs_print trace_print length_kill evolves_def)
qed

lemma start_usrp_iperf_launch_Inr:
  assumes "start_usrp_iperf_launch env (w, c) = Inr (w1, c1)"
  shows "c1 = c\<lparr>iperf_client_proc :=
                 (if truthy (iperf_client_addr c) then Some (length (procs w)) else iperf_client_proc c),
               iperf_server_proc := Some (server_pid w c),
               usrp_control_args := capture_args c,
               usrp_proc := Some (Suc (server_pid w c))\<rparr> \<and>
         length (procs w1) = Suc (Suc (server_pid w c)) \<and> evolves w w1 \<and>
         trace w1 = trace w @ [Printed (''Running USRP with interference injected...'' @ nl)] @
                    (if truthy (iperf_client_addr c)
                     then [Spawned (length (procs w)) (iperf_client_args c)] else []) @
                    [Spawned (server_pid w c) (iperf_server_args c),
                     Spawned (Suc (server_pid w c)) (capture_args c)] \<and>
         (truthy (iperf_client_addr c) \<longrightarrow>
            (\<exists>life code. env (length (procs w)) (iperf_client_args c) = Starts life code \<and>
               fresh (iperf_client_args c) life (procs w1 ! length (procs w)))) \<and>
         (\<exists>life code. env (server_pid w c) (iperf_server_args c) = Starts life code \<and>
            fresh (iperf_server_args c) life (procs w1 ! server_pid w c)) \<and>
         (\<exists>life code. env (Suc (server_pid w c)) (capture_args c) = Starts life code \<and>
            fresh (capture_args c) life (procs w1 ! Suc (server_pid w c)))"
proof (cases "truthy (iperf_client_addr c)")
  case True
  from start_usrp_iperf_launch_client[OF assms True] True show ?thesis
    by (simp add: server_pid_def)
next
  case False
  from start_usrp_iperf_launch_no_client[OF assms False] False show ?thesis
    by (simp add: server_pid_def)
qed

lemma server_pid_ge: "length (procs w) \<le> server_pid w c"
  by (simp add: server_pid_def)

lemma server_pid_client: "truthy (iperf_client_addr c) \<Longrightarrow> server_pid w c = Suc (length (procs w))"
  by (simp add: server_pid_def)

lemma start_usrp_iperf_Inr:
  assumes "start_usrp_iperf env (w, c) = Some (Inr (w', c'))"
  shows "c' = c\<lparr>iperf_client_proc :=
                 (if truthy (iperf_client_addr c) then Some (length (procs w)) else iperf_client_proc c),
               iperf_server_proc := Some (server_pid w c),
               usrp_control_args := capture_args c,
               usrp_proc := Some (Suc (server_pid w c))\<rparr> \<and>
         length (procs w') = Suc (Suc (server_pid w c)) \<and> evolves w w' \<and>
         argv (procs w' ! Suc (server_pid w c)) = capture_args c \<and>
         returncode (procs w' ! Suc (server_pid w c)) \<noteq> None \<and>
         \<not> is_running (procs w' ! Suc (server_pid w c)) \<and>
         argv (procs w' ! server_pid w c) = iperf_server_args c \<and>
         \<not> is_running (procs w' ! server_pid w c) \<and>
         (truthy (iperf_client_addr c) \<longrightarrow>
            argv (procs w' ! length (procs w)) = iperf_client_args c \<and>
            \<not> is_running (procs w' ! length (procs w))) \<and>
         (\<exists>life code. env (Suc (server_pid w c)) (capture_args c) = Starts (Some life) code) \<and>
         (\<exists>k. trace w' =
            trace w @ [Printed (''Running USRP with interference injected...'' @ nl)] @
            (if truthy (iperf_client_addr c)
             then [Spawned (length (procs w)) (iperf_client_args c)] else []) @
            [Spawned (server_pid w c) (iperf_server_args c),
             Spawned (Suc (server_pid w c)) (capture_args c)] @
            replicate (Suc k) (Polled (Suc (server_pid w c))) @
            (if truthy (iperf_client_addr c) then [KillCalled (length (procs w))] else []) @
            [KillCalled (server_pid w c), Printed (''Done sensing with iperf'' @ nl)])"
proof -
  let ?n = "length (procs w)" and ?s = "server_pid w c" and ?t = "truthy (iperf_client_addr c)"
  from assms obtain w1 c1 where l: "start_usrp_iperf_launch env (w, c) = Inr (w1, c1)"
    by (auto simp: start_usrp_iperf_def split: sum.splits)
  note L = start_usrp_iperf_launch_Inr[OF l]
  from L have c1: "c1 = c\<lparr>iperf_client_proc := (if ?t then Some ?n else iperf_client_proc c),
               iperf_server_proc := Some ?s, usrp_control_args := capture_args c,
               usrp_proc := Some (Suc ?s)\<rparr>"
    and len: "length (procs w1) = Suc (Suc ?s)" and e1: "evolves w w1"
    and t1: "trace w1 = trace w @ [Printed (''Running USRP with interference injected...'' @ nl)] @
                    (if ?t then [Spawned ?n (iperf_client_args c)] else []) @
                    [Spawned ?s (iperf_server_args c), Spawned (Suc ?s) (capture_args c)]"
    by blast+
  from L obtain ls ks lu ku where
    fs: "fresh (iperf_server_args c) ls (procs w1 ! ?s)"
    and envu: "env (Suc ?s) (capture_args c) = Starts lu ku"
    and fu: "fresh (capture_args c) lu (procs w1 ! Suc ?s)" by blast
  from L have fc: "\<exists>life. fresh (iperf_client_args c) life (procs w1 ! ?n)" if ?t
    using that by blast
  have c1f: "usrp_proc c1 = Some (Suc ?s)" "iperf_server_proc c1 = Some ?s"
    "iperf_client_addr c1 = iperf_client_addr c" "?t \<longrightarrow> iperf_client_proc c1 = Some ?n"
    by (simp_all add: c1)
  from assms l c1f(1) obtain y where y: "poll_until_recorded w1 (Suc ?s) = Some y"
    and td: "start_usrp_iperf_teardown (y, c1) = Inr (w', c')"
    by (auto simp: start_usrp_iperf_def split: option.splits)
  from wait_fresh[OF poll_until_recorded_post[OF y] fu] obtain k where
    k: "lu \<noteq> None" "length (procs y) = length (procs w1)" "evolves w1 y"
       "argv (procs y ! Suc ?s) = capture_args c" "returncode (procs y ! Suc ?s) \<noteq> None"
       "\<not> is_running (procs y ! Suc ?s)" "trace y = trace w1 @ replicate (Suc k) (Polled (Suc ?s))"
    by blast
  have vs: "?s < length (procs w1)" and vn: "?n < length (procs w1)"
    using len server_pid_ge[of w c] by simp_all
  have ss: "settled (procs y ! ?s)" using evolves_settled[OF k(3) vs] fs by (simp add: fresh_def)
  have sn: "settled (procs y ! ?n)" if ?t
    using evolves_settled[OF k(3) vn] fc[OF that] by (auto simp: fresh_def)
  have as: "argv (procs y ! ?s) = iperf_server_args c"
    using evolves_argv[OF k(3) vs] fs by (simp add: fresh_def)
  have an: "argv (procs y ! ?n) = iperf_client_args c" if ?t
    using evolves_argv[OF k(3) vn] fc[OF that] by (auto simp: fresh_def)
  have pre: "truthy (iperf_client_addr c1) \<longrightarrow>
           iperf_client_proc c1 = Some ?n \<and> ?n < length (procs y) \<and> settled (procs y ! ?n)"
    using c1f sn vn k(2) by simp
  from start_usrp_iperf_teardown_Inr[OF c1f(2) _ ss pre] vs k(2) td c1f(3) have
    c': "c' = c1" and len': "length (procs w') = length (procs y)" and e3: "evolves y w'"
    and nrs: "\<not> is_running (procs w' ! ?s)" and nrn: "?t \<longrightarrow> \<not> is_running (procs w' ! ?n)"
    and t3: "trace w' = trace y @ (if ?t then [KillCalled ?n] else []) @
                      [KillCalled ?s, Printed (''Done sensing with iperf'' @ nl)]"
    by auto
  have vy: "Suc ?s < length (procs y)" "?s < length (procs y)" "?n < length (procs y)"
    using len k(2) server_pid_ge[of w c] by simp_all
  have "evolves w w'" using e1 k(3) e3 by (blast intro: evolves_trans)
  moreover have "argv (procs w' ! Suc ?s) = capture_args c"
    using evolves_argv[OF e3 vy(1)] k(4) by simp
  moreover have "returncode (procs w' ! Suc ?s) \<noteq> None"
  proof -
    have "returncode_of y (Suc ?s) \<noteq> None" using k(5) vy(1) by (simp add: returncode_of_def)
    with evolves_recorded[OF e3, of "Suc ?s"] have "returncode_of w' (Suc ?s) \<noteq> None" by simp
    then show ?thesis by (simp add: returncode_of_def split: if_splits)
  qed
  moreover have "\<not> is_running (procs w' ! Suc ?s)" using evolves_not_running[OF e3 vy(1) k(6)] .
  moreover have "argv (procs w' ! ?s) = iperf_server_args c"
    using evolves_argv[OF e3 vy(2)] as by simp
  moreover have "?t \<longrightarrow> argv (procs w' ! ?n) = iperf_client_args c"
    using evolves_argv[OF e3 vy(3)] an by simp
  moreover have "\<exists>life code. env (Suc ?s) (capture_args c) = Starts (Some life) code"
    using envu k(1) by auto
  moreover have "trace w' =
            trace w @ [Printed (''Running USRP with interference injected...'' @ nl)] @
            (if ?t then [Spawned ?n (iperf_client_args c)] else []) @
            [Spawned ?s (iperf_server_args c), Spawned (Suc ?s) (capture_args c)] @
            replicate (Suc k) (Polled (Suc ?s)) @
            (if ?t then [KillCalled ?n] else []) @
            [KillCalled ?s, Printed (''Done sensing with iperf'' @ nl)]"
    unfolding t3 k(7) t1 by simp
  ultimately show ?thesis using c' c1 len' k(2) len nrs nrn by auto
qed

lemma start_usrp_iperf_Some_Inl:
  assumes "start_usrp_iperf env (w, c) = Some (Inl e)"
  shows "start_usrp_iperf_launch env (w, c) = Inl e"
proof (cases "start_usrp_iperf_launch env (w, c)")
  case (Inl e')
  with assms show ?thesis by (simp add: start_usrp_iperf_def)
next
  case (Inr r)
  obtain w1 c1 where r: "r = (w1, c1)" by (cases r)
  note L = start_usrp_iperf_launch_Inr[OF Inr[unfolded r]]
  let ?n = "length (procs w)" and ?s = "server_pid w c" and ?t = "truthy (iperf_client_addr c)"
  from L have c1f: "usrp_proc c1 = Some (Suc ?s)" "iperf_server_proc c1 = Some ?s"
    "iperf_client_addr c1 = iperf_client_addr c" "?t \<longrightarrow> iperf_client_proc c1 = Some ?n"
    by auto
  from assms Inr r c1f(1) obtain y where y: "poll_until_recorded w1 (Suc ?s) = Some y"
    and td: "start_usrp_iperf_teardown (y, c1) = Inl e"
    by (auto simp: start_usrp_iperf_def split: option.splits)
  from td c1f show ?thesis
    by (auto simp: start_usrp_iperf_teardown_def split: if_splits)
qed

lemma start_usrp_iperf_returns:
  assumes "start_usrp_iperf_launch env (w, c) = Inr (w1, c1)"
    and "env (Suc (server_pid w c)) (capture_args c) = Starts (Some m) code"
  shows "\<exists>s'. start_usrp_iperf env (w, c) = Some (Inr s')"
proof -
  let ?s = "server_pid w c"
  note L = start_usrp_iperf_launch_Inr[OF assms(1)]
  from L assms(2) have c1: "usrp_proc c1 = Some (Suc ?s)" and len: "length (procs w1) = Suc (Suc ?s)"
    and f: "fresh (capture_args c) (Some m) (procs w1 ! Suc ?s)" by auto
  from f have "mortal (procs w1 ! Suc ?s)" by (simp add: fresh_def)
  with len obtain y where y: "poll_until_recorded w1 (Suc ?s) = Some y"
    using poll_until_recorded_iff[of w1 "Suc ?s"] by auto
  show ?thesis
  proof (cases "start_usrp_iperf env (w, c)")
    case None
    with assms(1) c1 y show ?thesis by (simp add: start_usrp_iperf_def)
  next
    case (Some r)
    show ?thesis
    proof (cases r)
      case (Inl e)
      with Some start_usrp_iperf_Some_Inl[of env w c e] assms(1) show ?thesis by simp
    next
      case (Inr s')
      with Some show ?thesis by simp
    qed
  qed
qed


lemma start_usrp_iperf_launched_not_running:
  assumes r: "start_usrp_iperf env (w, c) = Some (Inr (w', c'))"
    and i: "length (procs w) \<le> i" "i < length (procs w')"
  shows "\<not> is_running (procs w' ! i)"
proof -
  note R = start_usrp_iperf_Inr[OF r]
  from R i(2) have "i < Suc (Suc (server_pid w c))" by simp
  then consider "i = Suc (server_pid w c)" | "i = server_pid w c" | "i < server_pid w c"
    by linarith
  then show ?thesis
  proof cases
    case 1
    with R show ?thesis by simp
  next
    case 2
    with R show ?thesis by simp
  next
    case 3
    with i(1) have t: "truthy (iperf_client_addr c)" "i = length (procs w)"
      by (auto simp: server_pid_def split: if_splits)
    with R show ?thesis by simp
  qed
qed





subsection \<open>Arguments of the capture job\<close>

lemma capture_args_fields:
  "capture_args (c\<lparr>file_name := f, run_time := r, usrp_control_args := x\<rparr>) =
     [''python'', working_dir c @ ''/utils/writeIQ.py'', f, str_number r]"
  by (simp add: capture_args_def)

text \<open>
  Claim C4.  In \<open>start_usrp\<close>, \<open>start_usrp_controller\<close> and \<open>start_usrp_iperf\<close> the
  capture process is launched with the list built at that moment from the working
  directory, the current file name and the current run time; the list the supervisor held
  before plays no part, and the field is left holding the new list.  So a file name or run
  time stored between two calls is the one the next launch uses.
\<close>

theorem capture_args_rebuilt_before_launch:
  "(start_usrp_launch env (w, c) = Inr (w1, c1) \<longrightarrow>
      usrp_proc c1 = Some (length (procs w)) \<and>
      usrp_control_args c1 =
        [''python'', working_dir c @ ''/utils/writeIQ.py'', file_name c, str_number (run_time c)] \<and>
      argv (procs w1 ! length (procs w)) =
        [''python'', working_dir c @ ''/utils/writeIQ.py'', file_name c, str_number (run_time c)]) \<and>
   (start_usrp_controller_launch env (w, c) = Inr (w1, c1) \<longrightarrow>
      usrp_proc c1 = Some (length (procs w)) \<and>
      usrp_control_args c1 =
        [''python'', working_dir c @ ''/utils/writeIQ.py'', file_name c, str_number (run_time c)] \<and>
      argv (procs w1 ! length (procs w)) =
        [''python'', working_dir c @ ''/utils/writeIQ.py'', file_name c, str_number (run_time c)]) \<and>
   (start_usrp_iperf_launch env (w, c) = Inr (w1, c1) \<longrightarrow>
      usrp_proc c1 = Some (Suc (server_pid w c)) \<and>
      usrp_control_args c1 =
        [''python'', working_dir c @ ''/utils/writeIQ.py'', file_name c, str_number (run_time c)] \<and>
      argv (procs w1 ! Suc (server_pid w c)) =
        [''python'', working_dir c @ ''/utils/writeIQ.py'', file_name c, str_number (run_time c)]) \<and>
   (start_usrp env (w, c) = Some (Inr (w', c')) \<longrightarrow>
      usrp_control_args c' =
        [''python'', working_dir c @ ''/utils/writeIQ.py'', file_name c, str_number (run_time c)] \<and>
      argv (procs w' ! length (procs w)) =
        [''python'', working_dir c @ ''/utils/writeIQ.py'', file_name c, str_number (run_time c)]) \<and>
   (start_usrp_controller env (w, c) = Some (Inr (w', c')) \<longrightarrow>
      usrp_control_args c' =
        [''python'', working_dir c @ ''/utils/writeIQ.py'', file_name c, str_number (run_time c)] \<and>
      argv (procs w' ! length (procs w)) =
        [''python'', working_dir c @ ''/utils/writeIQ.py'', file_name c, str_number (run_time c)]) \<and>
   (start_usrp_iperf env (w, c) = Some (Inr (w', c')) \<longrightarrow>
      usrp_control_args c' =
        [''python'', working_dir c @ ''/utils/writeIQ.py'', file_name c, str_number (run_time c)] \<and>
      argv (procs w' ! Suc (server_pid w c)) =
        [''python'', working_dir c @ ''/utils/writeIQ.py'', file_name c, str_number (run_time c)]) \<and>
   capture_args (c\<lparr>file_name := f, run_time := r, usrp_control_args := x\<rparr>) =
     [''python'', working_dir c @ ''/utils/writeIQ.py'', f, str_number r]"
proof -
  have cap: "capture_args c =
      [''python'', working_dir c @ ''/utils/writeIQ.py'', file_name c, str_number (run_time c)]"
    by (simp add: capture_args_def)
  have 1: "usrp_proc c1 = Some (length (procs w)) \<and> usrp_control_args c1 = capture_args c \<and>
      argv (procs w1 ! length (procs w)) = capture_args c"
    if "start_usrp_launch env (w, c) = Inr (w1, c1)"
    using start_usrp_launch_Inr[OF that] by (auto simp: fresh_def)
  have 2: "usrp_proc c1 = Some (length (procs w)) \<and> usrp_control_args c1 = capture_args c \<and>
      argv (procs w1 ! length (procs w)) = capture_args c"
    if "start_usrp_controller_launch env (w, c) = Inr (w1, c1)"
    using start_usrp_controller_launch_Inr[OF that] by (auto simp: fresh_def)
  have 3: "usrp_proc c1 = Some (Suc (server_pid w c)) \<and> usrp_control_args c1 = capture_args c \<and>
      argv (procs w1 ! Suc (server_pid w c)) = capture_args c"
    if "start_usrp_iperf_launch env (w, c) = Inr (w1, c1)"
    using start_usrp_iperf_launch_Inr[OF that] by (auto simp: fresh_def)
  have 4: "usrp_control_args c' = capture_args c \<and> argv (procs w' ! length (procs w)) = capture_args c"
    if "start_usrp env (w, c) = Some (Inr (w', c'))"
    using start_usrp_Inr[OF that] by simp
  have 5: "usrp_control_args c' = capture_args c \<and> argv (procs w' ! length (procs w)) = capture_args c"
    if "start_usrp_controller env (w, c) = Some (Inr (w', c'))"
    using start_usrp_controller_Inr[OF that] by simp
  have 6: "usrp_control_args c' = capture_args c \<and>
      argv (procs w' ! Suc (server_pid w c)) = capture_args c"
    if "start_usrp_iperf env (w, c) = Some (Inr (w', c'))"
    using start_usrp_iperf_Inr[OF that] by simp
  from 1 2 3 4 5 6 capture_args_fields[where c = c and f = f and r = r and x = x]
  show ?thesis unfolding cap by blast
qed

theorem capture_args_rebuilt_before_launch_witness:
  "(\<exists>w1 c1. start_usrp_launch ex_env (ex_world, ex_renamed) = Inr (w1, c1) \<and>
      usrp_control_args c1 = [''python'', ''/home/u/utils/writeIQ.py'', ''run2'', ''2''] \<and>
      argv (procs w1 ! 0) = [''python'', ''/home/u/utils/writeIQ.py'', ''run2'', ''2'']) \<and>
   (\<exists>w1 c1. start_usrp_controller_launch ex_env (ex_world, ex_renamed) = Inr (w1, c1) \<and>
      usrp_control_args c1 = [''python'', ''/home/u/utils/writeIQ.py'', ''run2'', ''2''] \<and>
      argv (procs w1 ! 0) = [''python'', ''/home/u/utils/writeIQ.py'', ''run2'', ''2'']) \<and>
   (\<exists>w1 c1. start_usrp_iperf_launch ex_env (ex_world, ex_renamed) = Inr (w1, c1) \<and>
      usrp_control_args c1 = [''python'', ''/home/u/utils/writeIQ.py'', ''run2'', ''2''] \<and>
      argv (procs w1 ! 1) = [''python'', ''/home/u/utils/writeIQ.py'', ''run2'', ''2'']) \<and>
   (\<exists>w' c'. start_usrp ex_env (ex_world, ex_renamed) = Some (Inr (w', c')) \<and>
      usrp_control_args c' = [''python'', ''/home/u/utils/writeIQ.py'', ''run2'', ''2''] \<and>
      argv (procs w' ! 0) = [''python'', ''/home/u/utils/writeIQ.py'', ''run2'', ''2'']) \<and>
   (\<exists>w' c'. start_usrp_controller ex_env (ex_world, ex_renamed) = Some (Inr (w', c')) \<and>
      usrp_control_args c' = [''python'', ''/home/u/utils/writeIQ.py'', ''run2'', ''2''] \<and>
      argv (procs w' ! 0) = [''python'', ''/home/u/utils/writeIQ.py'', ''run2'', ''2'']) \<and>
   (\<exists>w' c'. start_usrp_iperf ex_env (ex_world, ex_renamed) = Some (Inr (w', c')) \<and>
      usrp_control_args c' = [''python'', ''/home/u/utils/writeIQ.py'', ''run2'', ''2''] \<and>
      argv (procs w' ! 1) = [''python'', ''/home/u/utils/writeIQ.py'', ''run2'', ''2'']) \<and>
   map_option (map_sum id (\<lambda>(w, c). map argv (procs w)))
     (run ex_env [StartUsrp, SetFileName ''run2'', SetRunTime (Number ''2''), StartUsrp]
        (ex_world, ex_controller)) =
     Some (Inr [[''python'', ''/home/u/utils/writeIQ.py'', [], ''0.5''],
                [''python'', ''/home/u/utils/writeIQ.py'', ''run2'', ''2'']])"
proof -
  have l: "length (procs ex_world) = 0" by (simp add: ex_world_def)
  have s: "server_pid ex_world ex_renamed = 0" by code_simp
  have f: "working_dir ex_renamed = ''/home/u''" "file_name ex_renamed = ''run2''"
    "str_number (run_time ex_renamed) = ''2''" by code_simp+
  have A: "[''python'', working_dir ex_renamed @ ''/utils/writeIQ.py'', file_name ex_renamed,
            str_number (run_time ex_renamed)] = [''python'', ''/home/u/utils/writeIQ.py'', ''run2'', ''2'']"
    unfolding f by simp
  note t = capture_args_rebuilt_before_launch[where env = ex_env and w = ex_world and c = ex_renamed,
      unfolded A l s]
  have "\<not> isl (start_usrp_launch ex_env (ex_world, ex_renamed))" by code_simp
  then obtain wa ca where la: "start_usrp_launch ex_env (ex_world, ex_renamed) = Inr (wa, ca)"
    by (cases "start_usrp_launch ex_env (ex_world, ex_renamed)") auto
  have "\<not> isl (start_usrp_controller_launch ex_env (ex_world, ex_renamed))" by code_simp
  then obtain wb cb where lb: "start_usrp_controller_launch ex_env (ex_world, ex_renamed) = Inr (wb, cb)"
    by (cases "start_usrp_controller_launch ex_env (ex_world, ex_renamed)") auto
  have "\<not> isl (start_usrp_iperf_launch ex_env (ex_world, ex_renamed))" by code_simp
  then obtain wc cc where lc: "start_usrp_iperf_launch ex_env (ex_world, ex_renamed) = Inr (wc, cc)"
    by (cases "start_usrp_iperf_launch ex_env (ex_world, ex_renamed)") auto
  have ea: "ex_env (length (procs ex_world)) (capture_args ex_renamed) = Starts (Some 2) 0"
    unfolding l by code_simp
  have eb: "ex_env (Suc (length (procs ex_world))) (sg_controller_args ex_renamed) = Starts (Some 3) 0"
    unfolding l by code_simp
  have ec: "ex_env (Suc (server_pid ex_world ex_renamed)) (capture_args ex_renamed) = Starts (Some 3) 0"
    unfolding s by code_simp
  from start_usrp_returns[where env = ex_env, OF ea] obtain wd cd where
    ra: "start_usrp ex_env (ex_world, ex_renamed) = Some (Inr (wd, cd))" by auto
  from start_usrp_controller_returns[where env = ex_env, OF ea eb] obtain we ce where
    rb: "start_usrp_controller ex_env (ex_world, ex_renamed) = Some (Inr (we, ce))" by auto
  from start_usrp_iperf_returns[OF lc ec] obtain wf cf where
    rc: "start_usrp_iperf ex_env (ex_world, ex_renamed) = Some (Inr (wf, cf))" by auto
  note t1 = t[THEN conjunct1, rule_format, OF la]
  note t2 = t[THEN conjunct2, THEN conjunct1, rule_format, OF lb]
  note t3 = t[THEN conjunct2, THEN conjunct2, THEN conjunct1, rule_format, OF lc]
  note t4 = t[THEN conjunct2, THEN conjunct2, THEN conjunct2, THEN conjunct1, rule_format, OF ra]
  note t5 = t[THEN conjunct2, THEN conjunct2, THEN conjunct2, THEN conjunct2, THEN conjunct1,
      rule_format, OF rb]
  note t6 = t[THEN conjunct2, THEN conjunct2, THEN conjunct2, THEN conjunct2, THEN conjunct2,
      THEN conjunct1, rule_format, OF rc]
  have 1: "\<exists>w1 c1. start_usrp_launch ex_env (ex_world, ex_renamed) = Inr (w1, c1) \<and>
      usrp_control_args c1 = [''python'', ''/home/u/utils/writeIQ.py'', ''run2'', ''2''] \<and>
      argv (procs w1 ! 0) = [''python'', ''/home/u/utils/writeIQ.py'', ''run2'', ''2'']"
    using la t1 by blast
  have 2: "\<exists>w1 c1. start_usrp_controller_launch ex_env (ex_world, ex_renamed) = Inr (w1, c1) \<and>
      usrp_control_args c1 = [''python'', ''/home/u/utils/writeIQ.py'', ''run2'', ''2''] \<and>
      argv (procs w1 ! 0) = [''python'', ''/home/u/utils/writeIQ.py'', ''run2'', ''2'']"
    using lb t2 by blast
  have 3: "\<exists>w1 c1. start_usrp_iperf_launch ex_env (ex_world, ex_renamed) = Inr (w1, c1) \<and>
      usrp_control_args c1 = [''python'', ''/home/u/utils/writeIQ.py'', ''run2'', ''2''] \<and>
      argv (procs w1 ! 1) = [''python'', ''/home/u/utils/writeIQ.py'', ''run2'', ''2'']"
    using lc t3 by (intro exI[of _ wc] exI[of _ cc]) simp
  have 4: "\<exists>w' c'. start_usrp ex_env (ex_world, ex_renamed) = Some (Inr (w', c')) \<and>
      usrp_control_args c' = [''python'', ''/home/u/utils/writeIQ.py'', ''run2'', ''2''] \<and>
      argv (procs w' ! 0) = [''python'', ''/home/u/utils/writeIQ.py'', ''run2'', ''2'']"
    using ra t4 by blast
  have 5: "\<exists>w' c'. start_usrp_controller ex_env (ex_world, ex_renamed) = Some (Inr (w', c')) \<and>
      usrp_control_args c' = [''python'', ''/home/u/utils/writeIQ.py'', ''run2'', ''2''] \<and>
      argv (procs w' ! 0) = [''python'', ''/home/u/utils/writeIQ.py'', ''run2'', ''2'']"
    using rb t5 by blast
  have 6: "\<exists>w' c'. start_usrp_iperf ex_env (ex_world, ex_renamed) = Some (Inr (w', c')) \<and>
      usrp_control_args c' = [''python'', ''/home/u/utils/writeIQ.py'', ''run2'', ''2''] \<and>
      argv (procs w' ! 1) = [''python'', ''/home/u/utils/writeIQ.py'', ''run2'', ''2'']"
    using rc t6 by (intro exI[of _ wf] exI[of _ cf]) simp
  have 7: "map_option (map_sum id (\<lambda>(w, c). map argv (procs w)))
     (run ex_env [StartUsrp, SetFileName ''run2'', SetRunTime (Number ''2''), StartUsrp]
        (ex_world, ex_controller)) =
     Some (Inr [[''python'', ''/home/u/utils/writeIQ.py'', [], ''0.5''],
                [''python'', ''/home/u/utils/writeIQ.py'', ''run2'', ''2'']])" by code_simp
  from 1 2 3 4 5 6 7 show ?thesis by (intro conjI)
qed

subsection \<open>Sequences of calls\<close>

lemma no_running_nth: "no_running w \<longleftrightarrow> (\<forall>i < length (procs w). \<not> is_running (procs w ! i))"
  unfolding no_running_def by (metis in_set_conv_nth)

lemma no_running_step:
  assumes "no_running w" "evolves w w'"
    and "\<And>i. length (procs w) \<le> i \<Longrightarrow> i < length (procs w') \<Longrightarrow> \<not> is_running (procs w' ! i)"
  shows "no_running w'"
  unfolding no_running_nth
proof (intro allI impI)
  fix i assume i: "i < length (procs w')"
  show "\<not> is_running (procs w' ! i)"
  proof (cases "i < length (procs w)")
    case True
    with assms(1) have "\<not> is_running (procs w ! i)" by (simp add: no_running_nth)
    with evolves_not_running[OF assms(2) True] show ?thesis by simp
  next
    case False
    with assms(3)[of i] i show ?thesis by simp
  qed
qed

lemma exec_Inr:
  assumes "exec env a (w, c) = Some (Inr (w', c'))"
  shows "evolves w w' \<and>
         (\<forall>i. length (procs w) \<le> i \<longrightarrow> i < length (procs w') \<longrightarrow> \<not> is_running (procs w' ! i)) \<and>
         iperf_client_args c' = iperf_client_args c \<and> iperf_server_args c' = iperf_server_args c"
proof (cases a)
  case StartUsrp
  with assms have "start_usrp env (w, c) = Some (Inr (w', c'))" by simp
  from start_usrp_Inr[OF this] show ?thesis by (auto simp: less_Suc_eq)
next
  case StartController
  with assms have "start_controller env (w, c) () = Some (Inr (w', c'))" by simp
  from start_controller_Inr[OF this] show ?thesis by (auto simp: less_Suc_eq)
next
  case StartUsrpController
  with assms have "start_usrp_controller env (w, c) = Some (Inr (w', c'))" by simp
  from start_usrp_controller_Inr[OF this] show ?thesis by (auto simp: less_Suc_eq)
next
  case StartUsrpIperf
  with assms have r: "start_usrp_iperf env (w, c) = Some (Inr (w', c'))" by simp
  from start_usrp_iperf_Inr[OF r] start_usrp_iperf_launched_not_running[OF r]
  show ?thesis by simp
next
  case StartIperf
  with assms have "start_iperf env (w, c) = Some (Inr (w', c'))" by simp
  from start_iperf_Inr[OF this] show ?thesis by (auto simp: less_Suc_eq)
qed (use assms in \<open>auto simp: evolves_refl\<close>)

lemma run_Inr:
  "run env acts (w, c) = Some (Inr (w', c')) \<Longrightarrow>
     (no_running w \<longrightarrow> no_running w') \<and>
     iperf_client_args c' = iperf_client_args c \<and> iperf_server_args c' = iperf_server_args c"
proof (induction acts arbitrary: w c)
  case Nil
  then show ?case by simp
next
  case (Cons a acts)
  from Cons.prems obtain w1 c1 where
    e: "exec env a (w, c) = Some (Inr (w1, c1))" and r: "run env acts (w1, c1) = Some (Inr (w', c'))"
    by (auto split: option.splits sum.splits)
  note E = exec_Inr[OF e]
  have "no_running w1" if "no_running w" using no_running_step[OF that] E by blast
  with Cons.IH[OF r] E show ?case by simp
qed


subsection \<open>Arguments of the iperf jobs\<close>

text \<open>
  Claim C5 as stated says that the client list holds \<^verbatim>\<open>-bNoneM\<close> when nothing is set.
  A supervisor built in test mode has nothing set and its client list does not hold it:
  the test-mode branch of the constructor replaces the list.
\<close>

theorem iperf_client_args_test_mode_counterexample:
  "iperf_client_args (init True ''/home/u'') = [''python3'', ''/home/u/tests/iperf_sim.py'', ''None''] \<and>
   ''-bNoneM'' \<notin> set (iperf_client_args (init True ''/home/u''))"
  by (simp add: init_def py_str_def)

text \<open>
  Claim C5, as amended.  The iperf argument lists are built in the constructor only, from
  the fields as they are then (all \<^verbatim>\<open>None\<close>).  In real mode the client list holds
  \<^verbatim>\<open>None\<close>, \<^verbatim>\<open>-bNoneM\<close> and \<^verbatim>\<open>None\<close>; in test mode it is the list of the
  simulator script, which holds \<^verbatim>\<open>None\<close> only.  Whatever the caller stores afterwards in
  the address, rate and memory-address fields, and whatever operations it runs, the client
  and server launched by \<open>start_usrp_iperf\<close> and \<open>start_iperf\<close> get the lists of the
  constructor.
\<close>

theorem iperf_args_fixed_at_construction:
  "iperf_client_args (init False cwd) =
     [''iperf'', ''-c'', ''None'', ''-u'', ''-bNoneM'', ''-S'', ''None'', ''-t10000000000''] \<and>
   iperf_client_args (init True cwd) = [''python3'', cwd @ ''/tests/iperf_sim.py'', ''None''] \<and>
   iperf_server_args (init test_mode cwd) = [''iperf'', ''-s'', ''-u'', ''-t100000000000000''] \<and>
   (run env acts (w, init test_mode cwd) = Some (Inr (w1, c1)) \<longrightarrow>
      iperf_client_args c1 = iperf_client_args (init test_mode cwd) \<and>
      iperf_server_args c1 = iperf_server_args (init test_mode cwd) \<and>
      (start_usrp_iperf_launch env (w1, c1) = Inr (w2, c2) \<longrightarrow>
         trace w2 = trace w1 @ [Printed (''Running USRP with interference injected...'' @ nl)] @
           (if truthy (iperf_client_addr c1)
            then [Spawned (length (procs w1)) (iperf_client_args (init test_mode cwd))] else []) @
           [Spawned (server_pid w1 c1) (iperf_server_args (init test_mode cwd)),
            Spawned (Suc (server_pid w1 c1)) (capture_args c1)]) \<and>
      (start_iperf_launch env (w1, c1) = Inr (w2, c2) \<longrightarrow>
         trace w2 = trace w1 @ [Printed (''Running iperf...'' @ nl),
           Spawned (length (procs w1)) (iperf_client_args (init test_mode cwd)),
           Spawned (Suc (length (procs w1))) (iperf_server_args (init test_mode cwd))]))"
proof -
  have 1: "iperf_client_args (init False cwd) =
     [''iperf'', ''-c'', ''None'', ''-u'', ''-bNoneM'', ''-S'', ''None'', ''-t10000000000'']"
    by (simp add: init_def py_str_def)
  have 2: "iperf_client_args (init True cwd) = [''python3'', cwd @ ''/tests/iperf_sim.py'', ''None'']"
    by (simp add: init_def py_str_def)
  have 3: "iperf_server_args (init test_mode cwd) = [''iperf'', ''-s'', ''-u'', ''-t100000000000000'']"
    by (simp add: init_def)
  have 4: "iperf_client_args c1 = iperf_client_args (init test_mode cwd) \<and>
      iperf_server_args c1 = iperf_server_args (init test_mode cwd) \<and>
      (start_usrp_iperf_launch env (w1, c1) = Inr (w2, c2) \<longrightarrow>
         trace w2 = trace w1 @ [Printed (''Running USRP with interference injected...'' @ nl)] @
           (if truthy (iperf_client_addr c1)
            then [Spawned (length (procs w1)) (iperf_client_args (init test_mode cwd))] else []) @
           [Spawned (server_pid w1 c1) (iperf_server_args (init test_mode cwd)),
            Spawned (Suc (server_pid w1 c1)) (capture_args c1)]) \<and>
      (start_iperf_launch env (w1, c1) = Inr (w2, c2) \<longrightarrow>
         trace w2 = trace w1 @ [Printed (''Running iperf...'' @ nl),
           Spawned (length (procs w1)) (iperf_client_args (init test_mode cwd)),
           Spawned (Suc (length (procs w1))) (iperf_server_args (init test_mode cwd))])"
    if r: "run env acts (w, init test_mode cwd) = Some (Inr (w1, c1))"
  proof -
    from run_Inr[OF r] have k: "iperf_client_args c1 = iperf_client_args (init test_mode cwd)"
      "iperf_server_args c1 = iperf_server_args (init test_mode cwd)" by simp_all
    have "trace w2 = trace w1 @ [Printed (''Running USRP with interference injected...'' @ nl)] @
           (if truthy (iperf_client_addr c1)
            then [Spawned (length (procs w1)) (iperf_client_args c1)] else []) @
           [Spawned (server_pid w1 c1) (iperf_server_args c1),
            Spawned (Suc (server_pid w1 c1)) (capture_args c1)]"
      if "start_usrp_iperf_launch env (w1, c1) = Inr (w2, c2)"
      using start_usrp_iperf_launch_Inr[OF that] by blast
    moreover have "trace w2 = trace w1 @ [Printed (''Running iperf...'' @ nl),
           Spawned (length (procs w1)) (iperf_client_args c1),
           Spawned (Suc (length (procs w1))) (iperf_server_args c1)]"
      if "start_iperf_launch env (w1, c1) = Inr (w2, c2)"
      using start_iperf_launch_Inr[OF that] by blast
    ultimately show ?thesis unfolding k by blast
  qed
  from 1 2 3 4 show ?thesis by blast
qed

theorem iperf_args_fixed_at_construction_witness:
  "(\<exists>w1 c1 w2 c2.
      run quick_env [SetClientAddr (Some ''10.0.0.1''), SetRate (Some ''100''),
                     SetMemAddr (Some ''0x00''), StartUsrp] (ex_world, init False ''/home/u'') =
        Some (Inr (w1, c1)) \<and>
      iperf_client_addr c1 = Some ''10.0.0.1'' \<and> iperf_rate c1 = Some ''100'' \<and>
      iperf_mem_addr c1 = Some ''0x00'' \<and>
      iperf_client_args c1 =
        [''iperf'', ''-c'', ''None'', ''-u'', ''-bNoneM'', ''-S'', ''None'', ''-t10000000000''] \<and>
      start_iperf_launch quick_env (w1, c1) = Inr (w2, c2) \<and>
      trace w2 = trace w1 @ [Printed (''Running iperf...'' @ nl),
        Spawned 1 [''iperf'', ''-c'', ''None'', ''-u'', ''-bNoneM'', ''-S'', ''None'', ''-t10000000000''],
        Spawned 2 [''iperf'', ''-s'', ''-u'', ''-t100000000000000'']]) \<and>
   (\<exists>w1 c1 w2 c2.
      run quick_env [SetClientAddr (Some ''10.0.0.1''), SetRate (Some ''100''),
                     SetMemAddr (Some ''0x00''), StartUsrp] (ex_world, init False ''/home/u'') =
        Some (Inr (w1, c1)) \<and>
      start_usrp_iperf_launch quick_env (w1, c1) = Inr (w2, c2) \<and>
      trace w2 = trace w1 @ [Printed (''Running USRP with interference injected...'' @ nl),
        Spawned 1 [''iperf'', ''-c'', ''None'', ''-u'', ''-bNoneM'', ''-S'', ''None'', ''-t10000000000''],
        Spawned 2 [''iperf'', ''-s'', ''-u'', ''-t100000000000000''],
        Spawned 3 [''python'', ''/home/u/utils/writeIQ.py'', [], ''0.5'']])"
proof -
  let ?acts = "[SetClientAddr (Some ''10.0.0.1''), SetRate (Some ''100''),
                     SetMemAddr (Some ''0x00''), StartUsrp]"
  let ?c = "(init False ''/home/u'')\<lparr>iperf_client_addr := Some ''10.0.0.1'',
              iperf_rate := Some ''100'', iperf_mem_addr := Some ''0x00''\<rparr>"
  have e: "quick_env (length (procs ex_world)) (capture_args ?c) = Starts (Some 0) 0"
    by (simp add: quick_env_def ex_world_def)
  from start_usrp_returns[where env = quick_env, OF e] obtain w1 c1 where
    u: "start_usrp quick_env (ex_world, ?c) = Some (Inr (w1, c1))" by auto
  then have r: "run quick_env ?acts (ex_world, init False ''/home/u'') = Some (Inr (w1, c1))"
    by simp
  note U = start_usrp_Inr[OF u]
  from U have c1: "iperf_client_addr c1 = Some ''10.0.0.1''" "iperf_rate c1 = Some ''100''"
    "iperf_mem_addr c1 = Some ''0x00''" "file_name c1 = []" "run_time c1 = Number ''0.5''"
    "working_dir c1 = ''/home/u''"
    by (simp_all add: init_def)
  from U have len: "length (procs w1) = 1" by (simp add: ex_world_def)
  have tr: "truthy (iperf_client_addr c1)" unfolding c1 by (simp add: truthy_def)
  have sp: "server_pid w1 c1 = 2" using tr len by (simp add: server_pid_def)
  have cap: "capture_args c1 = [''python'', ''/home/u/utils/writeIQ.py'', [], ''0.5'']"
    by (simp add: capture_args_def c1)
  have "\<not> (\<exists>e. start_iperf_launch quick_env (w1, c1) = Inl e)"
    by (simp add: start_iperf_launch_Inl quick_env_def)
  then obtain w2 c2 where l2: "start_iperf_launch quick_env (w1, c1) = Inr (w2, c2)"
    by (cases "start_iperf_launch quick_env (w1, c1)") auto
  have "\<not> (\<exists>e. start_usrp_iperf_launch quick_env (w1, c1) = Inl e)"
    by (simp add: start_usrp_iperf_launch_Inl quick_env_def)
  then obtain w3 c3 where l3: "start_usrp_iperf_launch quick_env (w1, c1) = Inr (w3, c3)"
    by (cases "start_usrp_iperf_launch quick_env (w1, c1)") auto
  note t = iperf_args_fixed_at_construction[where env = quick_env and acts = ?acts
      and w = ex_world and test_mode = False and cwd = "''/home/u''" and ?w1.0 = w1 and ?c1.0 = c1]
  note i1 = t[THEN conjunct1]
  note t4 = t[THEN conjunct2, THEN conjunct2, THEN conjunct2, rule_format, OF r]
  note ca = t4[THEN conjunct1, unfolded i1]
  note sa = t4[THEN conjunct2, THEN conjunct1, unfolded t[THEN conjunct2, THEN conjunct2, THEN conjunct1]]
  note ti = t4[THEN conjunct2, THEN conjunct2, THEN conjunct2, rule_format, OF l2]
  note tu = t4[THEN conjunct2, THEN conjunct2, THEN conjunct1, rule_format, OF l3]
  have 1: "trace w2 = trace w1 @ [Printed (''Running iperf...'' @ nl),
        Spawned 1 [''iperf'', ''-c'', ''None'', ''-u'', ''-bNoneM'', ''-S'', ''None'', ''-t10000000000''],
        Spawned 2 [''iperf'', ''-s'', ''-u'', ''-t100000000000000'']]"
    using ti unfolding i1 t[THEN conjunct2, THEN conjunct2, THEN conjunct1] len by simp
  have 2: "trace w3 = trace w1 @ [Printed (''Running USRP with interference injected...'' @ nl),
        Spawned 1 [''iperf'', ''-c'', ''None'', ''-u'', ''-bNoneM'', ''-S'', ''None'', ''-t10000000000''],
        Spawned 2 [''iperf'', ''-s'', ''-u'', ''-t100000000000000''],
        Spawned 3 [''python'', ''/home/u/utils/writeIQ.py'', [], ''0.5'']]"
    using tu tr unfolding i1 t[THEN conjunct2, THEN conjunct2, THEN conjunct1] len sp cap by simp
  have A: "\<exists>w1 c1 w2 c2.
      run quick_env ?acts (ex_world, init False ''/home/u'') = Some (Inr (w1, c1)) \<and>
      iperf_client_addr c1 = Some ''10.0.0.1'' \<and> iperf_rate c1 = Some ''100'' \<and>
      iperf_mem_addr c1 = Some ''0x00'' \<and>
      iperf_client_args c1 =
        [''iperf'', ''-c'', ''None'', ''-u'', ''-bNoneM'', ''-S'', ''None'', ''-t10000000000''] \<and>
      start_iperf_launch quick_env (w1, c1) = Inr (w2, c2) \<and>
      trace w2 = trace w1 @ [Printed (''Running iperf...'' @ nl),
        Spawned 1 [''iperf'', ''-c'', ''None'', ''-u'', ''-bNoneM'', ''-S'', ''None'', ''-t10000000000''],
        Spawned 2 [''iperf'', ''-s'', ''-u'', ''-t100000000000000'']]"
    using r c1(1,2,3) ca l2 1 by blast
  have B: "\<exists>w1 c1 w2 c2.
      run quick_env ?acts (ex_world, init False ''/home/u'') = Some (Inr (w1, c1)) \<and>
      start_usrp_iperf_launch quick_env (w1, c1) = Inr (w2, c2) \<and>
      trace w2 = trace w1 @ [Printed (''Running USRP with interference injected...'' @ nl),
        Spawned 1 [''iperf'', ''-c'', ''None'', ''-u'', ''-bNoneM'', ''-S'', ''None'', ''-t10000000000''],
        Spawned 2 [''iperf'', ''-s'', ''-u'', ''-t100000000000000''],
        Spawned 3 [''python'', ''/home/u/utils/writeIQ.py'', [], ''0.5'']]"
    using r l3 2 by blast
  from A B show ?thesis by (intro conjI)
qed

subsection \<open>One process of a kind at a time\<close>




end
